theory Spec2Isabelle
  imports Complex_Main
begin

section \<open>Strings and the Python runtime\<close>

text \<open>
  A Python \<^verbatim>\<open>str\<close> is a sequence of Unicode code points, and \<^verbatim>\<open>len\<close> counts code
  points. The term service handles CJK text (code points U+4E00 to U+9FFF), so a string is
  a list of code points, each a natural number.
\<close>

type_synonym pstr = "nat list"

definition cps :: "string \<Rightarrow> pstr" where
  "cps s = map of_char s"

text \<open>
  Exceptions are values. \<open>RetrievalError\<close> stands for any \<^verbatim>\<open>Exception\<close> raised by a call
  into the vector service; \<open>ReError\<close> is the \<^verbatim>\<open>re.error\<close> that \<^verbatim>\<open>re.sub\<close> raises on a
  malformed replacement template.
\<close>

datatype error = RetrievalError | ReError

text \<open>
  The behaviour of the Python runtime on ASCII is written out below. What it does beyond
  ASCII comes from the Unicode tables shipped with the interpreter; they are not part of
  the repository and are taken as a parameter:
  \<^item> \<open>lower_ext\<close>: \<^verbatim>\<open>str.lower()\<close> of a string that holds a non-ASCII code point;
  \<^item> \<open>alnum_ext\<close>: whether a non-ASCII code point is alphanumeric (the \<^verbatim>\<open>\w\<close> class);
  \<^item> \<open>caseless_ext\<close>: whether a pattern literal matches a text character under
    \<^verbatim>\<open>re.IGNORECASE\<close> when one of the two is not ASCII;
  \<^item> \<open>template_ext\<close>: how \<^verbatim>\<open>re.sub\<close> expands a replacement string that holds a
    backslash (an escape or a group reference; \<open>None\<close> when it raises \<^verbatim>\<open>re.error\<close>).
\<close>

record pyrt =
  lower_ext :: "pstr \<Rightarrow> pstr"
  alnum_ext :: "nat \<Rightarrow> bool"
  caseless_ext :: "nat \<Rightarrow> nat \<Rightarrow> bool"
  template_ext :: "pstr \<Rightarrow> pstr option"

definition is_ascii :: "nat \<Rightarrow> bool" where
  "is_ascii c = (c < 128)"

definition ascii_upper :: "nat \<Rightarrow> bool" where
  "ascii_upper c = (65 \<le> c \<and> c \<le> 90)"

definition ascii_lower_letter :: "nat \<Rightarrow> bool" where
  "ascii_lower_letter c = (97 \<le> c \<and> c \<le> 122)"

definition ascii_digit :: "nat \<Rightarrow> bool" where
  "ascii_digit c = (48 \<le> c \<and> c \<le> 57)"

definition ascii_tolower :: "nat \<Rightarrow> nat" where
  "ascii_tolower c = (if ascii_upper c then c + 32 else c)"

definition py_lower :: "pyrt \<Rightarrow> pstr \<Rightarrow> pstr" where
  "py_lower U s = (if list_all is_ascii s then map ascii_tolower s else lower_ext U s)"

text \<open>
  The replacement templates of \<^verbatim>\<open>re.sub\<close> over ASCII, for evaluation: a backslash
  before one of \<open>a b f n r t v\<close> or before a backslash stands for the control character or
  the backslash; before any other ASCII letter, and at the end of the string, it raises
  \<^verbatim>\<open>re.error\<close>; before a character that is neither a letter nor a digit it is kept with
  that character. A backslash before a digit is a group reference, which raises for the
  patterns of this program since they have no groups (octal escapes and \<^verbatim>\<open>\g<0>\<close> are not
  in this table).
\<close>

definition escape_code :: "nat \<Rightarrow> nat option" where
  "escape_code c =
     (if c = 97 then Some 7 else if c = 98 then Some 8 else if c = 102 then Some 12
      else if c = 110 then Some 10 else if c = 114 then Some 13 else if c = 116 then Some 9
      else if c = 118 then Some 11 else if c = 92 then Some 92 else None)"

fun template_ascii :: "pstr \<Rightarrow> pstr option" where
  "template_ascii [] = Some []"
| "template_ascii [c] = (if c = 92 then None else Some [c])"
| "template_ascii (c # d # s) =
     (if c \<noteq> 92 then map_option ((#) c) (template_ascii (d # s))
      else (case escape_code d of
              Some e \<Rightarrow> map_option ((#) e) (template_ascii s)
            | None \<Rightarrow>
                if ascii_upper d \<or> ascii_lower_letter d \<or> ascii_digit d then None
                else map_option (\<lambda>r. c # d # r) (template_ascii s)))"

text \<open>
  Tables that serve to evaluate the model on concrete inputs over ASCII and the CJK
  block: the CJK ideographs are alphanumeric and uncased, and every other code point
  beyond ASCII is taken as uncased and not alphanumeric.
\<close>

definition ascii_rt :: pyrt where
  "ascii_rt = \<lparr> lower_ext = map ascii_tolower,
                alnum_ext = (\<lambda>c. 19968 \<le> c \<and> c \<le> 40959),
                caseless_ext = (\<lambda>a b. a = b),
                template_ext = template_ascii \<rparr>"

text \<open>
  Floats are idealised as reals. \<^verbatim>\<open>round(x, n)\<close> rounds to \<open>n\<close> decimals, ties to even.
\<close>

definition round_half_even :: "real \<Rightarrow> int" where
  "round_half_even x =
     (let f = \<lfloor>x\<rfloor>; d = x - of_int f
      in if d < 1 / 2 then f
         else if 1 / 2 < d then f + 1
         else if even f then f else f + 1)"

definition py_round :: "real \<Rightarrow> nat \<Rightarrow> real" where
  "py_round x n = of_int (round_half_even (x * 10 ^ n)) / 10 ^ n"

section \<open>The term dictionary (data\_loader.py)\<close>

text \<open>
  \<open>terms_df\<close> after loading: the rows of the CSV file in order, each a term and a label.
\<close>

record row =
  row_term :: pstr
  row_label :: pstr

text \<open>
  \<^verbatim>\<open>DataLoader.search_exact\<close>: the rows whose term equals the query after \<^verbatim>\<open>lower()\<close> on
  both sides, in the order of the data frame.
\<close>

definition search_exact :: "pyrt \<Rightarrow> row list \<Rightarrow> pstr \<Rightarrow> row list" where
  "search_exact U terms_df query =
     filter (\<lambda>r. py_lower U (row_term r) = py_lower U query) terms_df"

section \<open>The vector service, as the term service sees it\<close>

text \<open>
  The term service reads two things of a search result: its term and its similarity.
  A call to \<^verbatim>\<open>search_similar(query, top_k)\<close> returns a list of results or raises.
\<close>

record sem_result =
  sr_term :: pstr
  sr_similarity :: real

record vector_service =
  is_initialized :: bool
  search_similar :: "pstr \<Rightarrow> int \<Rightarrow> error + sem_result list"

record term_service =
  data_loader :: "row list"
  vector_service :: "vector_service option"

section \<open>standardize (term\_service.py)\<close>

datatype match_type = Exact | Semantic | Semantic_low | No_match

datatype message =
    Msg_empty_query
  | Msg_exact
  | Msg_semantic
  | Msg_semantic_low real
  | Msg_not_found real

record candidate =
  cand_term :: pstr
  cand_score :: real
  cand_similarity :: real
  cand_source :: string

text \<open>
  The result dictionary. The key \<^verbatim>\<open>'similarity'\<close> is present in some of the returned
  dictionaries only, so the field is optional; \<^verbatim>\<open>None\<close> for \<^verbatim>\<open>'standard_term'\<close> is
  \<open>None\<close> as well.
\<close>

record match_result =
  mr_query :: pstr
  mr_standard_term :: "pstr option"
  mr_score :: real
  mr_match_type :: match_type
  mr_similarity :: "real option"
  mr_message :: message
  mr_candidates :: "candidate list"

definition mk_candidate :: "sem_result \<Rightarrow> candidate" where
  "mk_candidate r =
     \<lparr> cand_term = sr_term r,
       cand_score = py_round (sr_similarity r * 100) 2,
       cand_similarity = sr_similarity r,
       cand_source = ''semantic'' \<rparr>"

definition empty_query_result :: "pstr \<Rightarrow> match_result" where
  "empty_query_result query =
     \<lparr> mr_query = query, mr_standard_term = None, mr_score = 0,
       mr_match_type = No_match, mr_similarity = None,
       mr_message = Msg_empty_query, mr_candidates = [] \<rparr>"

definition not_found_result :: "pstr \<Rightarrow> real \<Rightarrow> match_result" where
  "not_found_result query semantic_threshold =
     \<lparr> mr_query = query, mr_standard_term = None, mr_score = 0,
       mr_match_type = No_match, mr_similarity = None,
       mr_message = Msg_not_found semantic_threshold, mr_candidates = [] \<rparr>"

text \<open>
  The semantic strategy of \<^verbatim>\<open>standardize\<close>: the body of the \<^verbatim>\<open>try\<close> block. \<open>None\<close> means
  that the block fell through (no result list, or an exception that the handler logged),
  so that the caller goes on to the final \<^verbatim>\<open>return\<close>.
\<close>

definition semantic_strategy :: "vector_service \<Rightarrow> pstr \<Rightarrow> real \<Rightarrow> match_result option" where
  "semantic_strategy vs query semantic_threshold =
     (case search_similar vs query 5 of
        Inl e \<Rightarrow> None
      | Inr [] \<Rightarrow> None
      | Inr (best_semantic # others) \<Rightarrow>
          (let semantic_similarity = sr_similarity best_semantic;
               candidates = map mk_candidate (best_semantic # others)
           in if semantic_threshold \<le> semantic_similarity
              then Some \<lparr> mr_query = query,
                          mr_standard_term = Some (sr_term best_semantic),
                          mr_score = py_round (semantic_similarity * 100) 2,
                          mr_match_type = Semantic,
                          mr_similarity = Some (py_round semantic_similarity 4),
                          mr_message = Msg_semantic,
                          mr_candidates = candidates \<rparr>
              else Some \<lparr> mr_query = query,
                          mr_standard_term = None,
                          mr_score = py_round (semantic_similarity * 100) 2,
                          mr_match_type = Semantic_low,
                          mr_similarity = Some (py_round semantic_similarity 4),
                          mr_message = Msg_semantic_low semantic_threshold,
                          mr_candidates = candidates \<rparr>))"

definition standardize :: "pyrt \<Rightarrow> term_service \<Rightarrow> pstr \<Rightarrow> real \<Rightarrow> match_result" where
  "standardize U ts query semantic_threshold =
     (if query = [] then empty_query_result query
      else case search_exact U (data_loader ts) query of
        m # ms \<Rightarrow>
          \<lparr> mr_query = query, mr_standard_term = Some (row_term m), mr_score = 100,
            mr_match_type = Exact, mr_similarity = Some 1,
            mr_message = Msg_exact, mr_candidates = [] \<rparr>
      | [] \<Rightarrow>
          (case vector_service ts of
             None \<Rightarrow> not_found_result query semantic_threshold
           | Some vs \<Rightarrow>
               if is_initialized vs
               then (case semantic_strategy vs query semantic_threshold of
                       Some r \<Rightarrow> r
                     | None \<Rightarrow> not_found_result query semantic_threshold)
               else not_found_result query semantic_threshold))"

section \<open>get\_similar\_terms (term\_service.py)\<close>

record similar_term =
  st_term :: pstr
  st_similarity :: real

text \<open>
  The \<^verbatim>\<open>for\<close> loop over the results. The length test comes after the \<^verbatim>\<open>append\<close>, and
  \<^verbatim>\<open>break\<close> leaves the loop with the list built so far.
\<close>

fun collect_similar ::
  "pyrt \<Rightarrow> pstr \<Rightarrow> int \<Rightarrow> real \<Rightarrow> sem_result list \<Rightarrow> similar_term list \<Rightarrow> similar_term list"
where
  "collect_similar U term limit threshold [] similar_terms = similar_terms"
| "collect_similar U term limit threshold (result # results) similar_terms =
     (if py_lower U (sr_term result) \<noteq> py_lower U term \<and> threshold \<le> sr_similarity result
      then (let appended = similar_terms @
                  [\<lparr> st_term = sr_term result,
                     st_similarity = py_round (sr_similarity result) 4 \<rparr>]
            in if limit \<le> int (length appended) then appended
               else collect_similar U term limit threshold results appended)
      else collect_similar U term limit threshold results similar_terms)"

definition get_similar_terms ::
  "pyrt \<Rightarrow> term_service \<Rightarrow> pstr \<Rightarrow> int \<Rightarrow> real \<Rightarrow> similar_term list"
where
  "get_similar_terms U ts term limit threshold =
     (case vector_service ts of
        None \<Rightarrow> []
      | Some vs \<Rightarrow>
          if \<not> is_initialized vs then []
          else (case search_similar vs term (limit + 5) of
                  Inl e \<Rightarrow> []
                | Inr results \<Rightarrow> collect_similar U term limit threshold results []))"

section \<open>The regular expressions of identify\_and\_replace\_terms\<close>

text \<open>
  The patterns of the source are sequences of four kinds of item: the word boundary
  \<^verbatim>\<open>\b\<close>, one character of a class, a greedy \<^verbatim>\<open>*\<close> over a class, and a greedy bounded
  repetition \<^verbatim>\<open>{lo,hi}\<close> over a class. \<^verbatim>\<open>\s+\<close> is one space followed by \<^verbatim>\<open>\s*\<close>.
\<close>

datatype item =
    Bnd
  | One "nat \<Rightarrow> bool"
  | Star "nat \<Rightarrow> bool"
  | Rep "nat \<Rightarrow> bool" nat nat

definition is_word :: "pyrt \<Rightarrow> nat \<Rightarrow> bool" where
  "is_word U c =
     (if is_ascii c
      then ascii_upper c \<or> ascii_lower_letter c \<or> ascii_digit c \<or> c = 95
      else alnum_ext U c)"

text \<open>
  \<^verbatim>\<open>\b\<close> holds between a word character and a non-word character; the outside of the
  string counts as non-word. \<open>prev\<close> is the character before the position, \<open>rest\<close> the text
  from the position on.
\<close>

definition at_boundary :: "pyrt \<Rightarrow> nat option \<Rightarrow> pstr \<Rightarrow> bool" where
  "at_boundary U prev rest =
     ((case prev of None \<Rightarrow> False | Some c \<Rightarrow> is_word U c)
        \<noteq> (case rest of [] \<Rightarrow> False | c # cs \<Rightarrow> is_word U c))"

text \<open>
  The backtracking matcher at one position: the number of characters of the first match
  in the engine's order of preference (a greedy repetition takes one more character
  first, and gives it back when the rest of the pattern fails).
\<close>

fun re_match :: "pyrt \<Rightarrow> item list \<Rightarrow> nat option \<Rightarrow> pstr \<Rightarrow> nat option" where
  "re_match U [] prev rest = Some 0"
| "re_match U (Bnd # p) prev rest =
     (if at_boundary U prev rest then re_match U p prev rest else None)"
| "re_match U (One c # p) prev [] = None"
| "re_match U (One c # p) prev (x # xs) =
     (if c x then map_option Suc (re_match U p (Some x) xs) else None)"
| "re_match U (Star c # p) prev [] = re_match U p prev []"
| "re_match U (Star c # p) prev (x # xs) =
     (if c x
      then (case re_match U (Star c # p) (Some x) xs of
              Some n \<Rightarrow> Some (Suc n)
            | None \<Rightarrow> re_match U p prev (x # xs))
      else re_match U p prev (x # xs))"
| "re_match U (Rep c lo hi # p) prev [] =
     (if lo = 0 then re_match U p prev [] else None)"
| "re_match U (Rep c lo hi # p) prev (x # xs) =
     (if 0 < hi \<and> c x
      then (case re_match U (Rep c (lo - 1) (hi - 1) # p) (Some x) xs of
              Some n \<Rightarrow> Some (Suc n)
            | None \<Rightarrow> if lo = 0 then re_match U p prev (x # xs) else None)
      else if lo = 0 then re_match U p prev (x # xs) else None)"

text \<open>
  \<^verbatim>\<open>re.findall\<close> for a pattern without groups: the matched substrings from left to
  right, without overlap. \<open>skip\<close> counts the characters still inside the last match.
\<close>

fun findall_from :: "pyrt \<Rightarrow> item list \<Rightarrow> nat option \<Rightarrow> pstr \<Rightarrow> nat \<Rightarrow> pstr list" where
  "findall_from U p prev [] skip =
     (if skip = 0 then (case re_match U p prev [] of Some n \<Rightarrow> [[]] | None \<Rightarrow> []) else [])"
| "findall_from U p prev (x # xs) skip =
     (if 0 < skip then findall_from U p (Some x) xs (skip - 1)
      else (case re_match U p prev (x # xs) of
              None \<Rightarrow> findall_from U p (Some x) xs 0
            | Some n \<Rightarrow> take n (x # xs) # findall_from U p (Some x) xs (n - 1)))"

definition findall :: "pyrt \<Rightarrow> item list \<Rightarrow> pstr \<Rightarrow> pstr list" where
  "findall U p text = findall_from U p None text 0"

text \<open>
  \<^verbatim>\<open>re.subn\<close> with an expanded replacement: the text with every match replaced, and the
  number of replacements. A character is copied when no match starts at it or when the
  match there is empty.
\<close>

fun subn_from :: "pyrt \<Rightarrow> item list \<Rightarrow> pstr \<Rightarrow> nat option \<Rightarrow> pstr \<Rightarrow> nat \<Rightarrow> pstr \<times> nat" where
  "subn_from U p repl prev [] skip =
     (if skip = 0 then (case re_match U p prev [] of Some n \<Rightarrow> (repl, 1) | None \<Rightarrow> ([], 0))
      else ([], 0))"
| "subn_from U p repl prev (x # xs) skip =
     (if 0 < skip then subn_from U p repl (Some x) xs (skip - 1)
      else (case re_match U p prev (x # xs) of
              None \<Rightarrow> (let (t, k) = subn_from U p repl (Some x) xs 0 in (x # t, k))
            | Some n \<Rightarrow>
                (let (t, k) = subn_from U p repl (Some x) xs (n - 1)
                 in (repl @ (if n = 0 then [x] else []) @ t, Suc k))))"

text \<open>
  A replacement string without a backslash stands for itself; with one, the template
  parser of the runtime decides.
\<close>

definition expand_template :: "pyrt \<Rightarrow> pstr \<Rightarrow> error + pstr" where
  "expand_template U repl =
     (if 92 \<in> set repl
      then (case template_ext U repl of None \<Rightarrow> Inl ReError | Some r \<Rightarrow> Inr r)
      else Inr repl)"

definition re_sub :: "pyrt \<Rightarrow> item list \<Rightarrow> pstr \<Rightarrow> pstr \<Rightarrow> error + pstr" where
  "re_sub U p repl text =
     (case expand_template U repl of
        Inl e \<Rightarrow> Inl e
      | Inr r \<Rightarrow> Inr (fst (subn_from U p r None text 0)))"

subsection \<open>The character classes and patterns of the source\<close>

definition latin_start :: "nat \<Rightarrow> bool" where
  "latin_start c = (ascii_upper c \<or> ascii_lower_letter c)"

definition latin_cont :: "nat \<Rightarrow> bool" where
  "latin_cont c = (latin_start c \<or> ascii_digit c \<or> c = 45 \<or> c = 47 \<or> c = 38)"

text \<open>\<^verbatim>\<open>\s\<close> on a \<^verbatim>\<open>str\<close>: the Unicode white space characters.\<close>

definition py_space :: "nat \<Rightarrow> bool" where
  "py_space c =
     ((9 \<le> c \<and> c \<le> 13) \<or> (28 \<le> c \<and> c \<le> 32) \<or> c = 133 \<or> c = 160 \<or> c = 5760
      \<or> (8192 \<le> c \<and> c \<le> 8202) \<or> c = 8232 \<or> c = 8233 \<or> c = 8239 \<or> c = 8287
      \<or> c = 12288)"

definition cjk :: "nat \<Rightarrow> bool" where
  "cjk c = (19968 \<le> c \<and> c \<le> 40959)"

definition word_items :: "item list" where
  "word_items = [One latin_start, Star latin_cont]"

definition spaces_items :: "item list" where
  "spaces_items = [One py_space, Star py_space]"

definition single_word_pattern :: "item list" where
  "single_word_pattern = [Bnd] @ word_items @ [Bnd]"

definition bigram_pattern :: "item list" where
  "bigram_pattern = [Bnd] @ word_items @ spaces_items @ word_items @ [Bnd]"

definition trigram_pattern :: "item list" where
  "trigram_pattern =
     [Bnd] @ word_items @ spaces_items @ word_items @ spaces_items @ word_items @ [Bnd]"

definition chinese_pattern :: "item list" where
  "chinese_pattern = [Rep cjk 2 6]"

text \<open>
  A literal of \<^verbatim>\<open>re.escape(original)\<close> under \<^verbatim>\<open>re.IGNORECASE\<close>.
\<close>

definition ci_eq :: "pyrt \<Rightarrow> nat \<Rightarrow> nat \<Rightarrow> bool" where
  "ci_eq U x c =
     (if is_ascii x \<and> is_ascii c then ascii_tolower x = ascii_tolower c
      else caseless_ext U x c)"

definition whole_word_pattern :: "pyrt \<Rightarrow> pstr \<Rightarrow> item list" where
  "whole_word_pattern U original = [Bnd] @ map (\<lambda>x. One (ci_eq U x)) original @ [Bnd]"

section \<open>identify\_and\_replace\_terms (term\_service.py)\<close>

subsection \<open>Extraction of the potential terms\<close>

text \<open>
  The state of the four loops is the list \<^verbatim>\<open>potential_terms\<close> and the set \<^verbatim>\<open>seen\<close>.
  Only the first loop tests the length of the word.
\<close>

definition add_single :: "pyrt \<Rightarrow> int \<Rightarrow> pstr \<Rightarrow> pstr list \<times> pstr set \<Rightarrow> pstr list \<times> pstr set" where
  "add_single U min_word_length word st =
     (let word_lower = py_lower U word
      in if min_word_length \<le> int (length word) \<and> word_lower \<notin> snd st
         then (fst st @ [word], insert word_lower (snd st))
         else st)"

definition add_phrase :: "pyrt \<Rightarrow> pstr \<Rightarrow> pstr list \<times> pstr set \<Rightarrow> pstr list \<times> pstr set" where
  "add_phrase U phrase st =
     (let phrase_lower = py_lower U phrase
      in if phrase_lower \<notin> snd st
         then (fst st @ [phrase], insert phrase_lower (snd st))
         else st)"

definition extract_terms :: "pyrt \<Rightarrow> pstr \<Rightarrow> int \<Rightarrow> pstr list" where
  "extract_terms U text min_word_length =
     (let st1 = fold (add_single U min_word_length) (findall U single_word_pattern text) ([], {});
          st2 = fold (add_phrase U) (findall U bigram_pattern text) st1;
          st3 = fold (add_phrase U) (findall U trigram_pattern text) st2;
          st4 = fold (add_phrase U) (findall U chinese_pattern text) st3
      in fst st4)"

subsection \<open>Identification\<close>

record identified_term =
  it_original :: pstr
  it_standard :: pstr
  it_similarity :: real
  it_match_type :: match_type

text \<open>
  The body of the loop over the potential terms, with its \<^verbatim>\<open>try\<close> block. The state is the
  list \<^verbatim>\<open>identified_terms\<close> and, as a trace, the calls made to \<^verbatim>\<open>search_similar\<close> (query and
  \<^verbatim>\<open>top_k\<close>). The dictionary \<^verbatim>\<open>replacements\<close> of the source is written and never read, and
  is left out.
\<close>

definition identify_step ::
  "pyrt \<Rightarrow> row list \<Rightarrow> vector_service \<Rightarrow> real \<Rightarrow> pstr
     \<Rightarrow> identified_term list \<times> (pstr \<times> int) list \<Rightarrow> identified_term list \<times> (pstr \<times> int) list"
where
  "identify_step U terms_df vs similarity_threshold term st =
     (case search_exact U terms_df term of
        m # ms \<Rightarrow>
          (if term \<noteq> row_term m
           then (fst st @ [\<lparr> it_original = term, it_standard = row_term m,
                              it_similarity = 1, it_match_type = Exact \<rparr>], snd st)
           else st)
      | [] \<Rightarrow>
          (case search_similar vs term 1 of
             Inl e \<Rightarrow> (fst st, snd st @ [(term, 1)])
           | Inr [] \<Rightarrow> (fst st, snd st @ [(term, 1)])
           | Inr (best_match # others) \<Rightarrow>
               (if similarity_threshold \<le> sr_similarity best_match
                   \<and> py_lower U term \<noteq> py_lower U (sr_term best_match)
                then (fst st @ [\<lparr> it_original = term, it_standard = sr_term best_match,
                                   it_similarity = sr_similarity best_match,
                                   it_match_type = Semantic \<rparr>], snd st @ [(term, 1)])
                else (fst st, snd st @ [(term, 1)]))))"

definition identification_pass ::
  "pyrt \<Rightarrow> row list \<Rightarrow> vector_service \<Rightarrow> real \<Rightarrow> pstr list
     \<Rightarrow> identified_term list \<times> (pstr \<times> int) list"
where
  "identification_pass U terms_df vs similarity_threshold potential_terms =
     fold (identify_step U terms_df vs similarity_threshold) potential_terms ([], [])"

subsection \<open>Replacement\<close>

record replacement_record =
  rr_original :: pstr
  rr_standard :: pstr
  rr_count :: nat
  rr_similarity :: real
  rr_match_type :: match_type

text \<open>
  \<^verbatim>\<open>sorted(identified_terms, key=lambda x: len(x['original']), reverse=True)\<close>: a stable
  sort by descending length.
\<close>

definition sorted_terms :: "identified_term list \<Rightarrow> identified_term list" where
  "sorted_terms identified_terms =
     sort_key (\<lambda>x. - int (length (it_original x))) identified_terms"

definition mk_record :: "identified_term \<Rightarrow> nat \<Rightarrow> replacement_record" where
  "mk_record item count =
     \<lparr> rr_original = it_original item, rr_standard = it_standard item, rr_count = count,
       rr_similarity = it_similarity item, rr_match_type = it_match_type item \<rparr>"

text \<open>
  The loop over the sorted terms. Nothing catches the \<^verbatim>\<open>re.error\<close> of \<^verbatim>\<open>re.sub\<close>, so it
  ends the loop and the call.
\<close>

fun replace_loop ::
  "pyrt \<Rightarrow> identified_term list \<Rightarrow> pstr \<Rightarrow> replacement_record list
     \<Rightarrow> error + pstr \<times> replacement_record list"
where
  "replace_loop U [] processed_text replacement_records =
     Inr (processed_text, replacement_records)"
| "replace_loop U (item # items) processed_text replacement_records =
     (let pattern = whole_word_pattern U (it_original item);
          count = length (findall U pattern processed_text)
      in if 0 < count
         then (case re_sub U pattern (it_standard item) processed_text of
                 Inl e \<Rightarrow> Inl e
               | Inr replaced \<Rightarrow>
                   replace_loop U items replaced (replacement_records @ [mk_record item count]))
         else replace_loop U items processed_text replacement_records)"

subsection \<open>The whole call\<close>

datatype text_message = Msg_unavailable | Msg_done nat nat

text \<open>
  The result dictionary; the key \<^verbatim>\<open>'total_replacements'\<close> is not in every returned
  dictionary, so the field is optional.
\<close>

record text_result =
  tr_original_text :: pstr
  tr_processed_text :: pstr
  tr_identified_terms :: "identified_term list"
  tr_replacements :: "replacement_record list"
  tr_total_replacements :: "nat option"
  tr_message :: text_message

text \<open>The vector service when it is there and initialized.\<close>

definition usable_service :: "term_service \<Rightarrow> vector_service option" where
  "usable_service ts =
     (case vector_service ts of
        None \<Rightarrow> None
      | Some vs \<Rightarrow> if is_initialized vs then Some vs else None)"

definition identify_and_replace_terms ::
  "pyrt \<Rightarrow> term_service \<Rightarrow> pstr \<Rightarrow> real \<Rightarrow> int \<Rightarrow> error + text_result"
where
  "identify_and_replace_terms U ts text similarity_threshold min_word_length =
     (case (if text = [] then None else usable_service ts) of
        None \<Rightarrow>
          Inr \<lparr> tr_original_text = text, tr_processed_text = text,
                tr_identified_terms = [], tr_replacements = [],
                tr_total_replacements = None, tr_message = Msg_unavailable \<rparr>
      | Some vs \<Rightarrow>
          (let potential_terms = extract_terms U text min_word_length;
               identified_terms =
                 fst (identification_pass U (data_loader ts) vs similarity_threshold
                        potential_terms)
           in case replace_loop U (sorted_terms identified_terms) text [] of
                Inl e \<Rightarrow> Inl e
              | Inr (processed_text, replacement_records) \<Rightarrow>
                  Inr \<lparr> tr_original_text = text, tr_processed_text = processed_text,
                        tr_identified_terms = identified_terms,
                        tr_replacements = replacement_records,
                        tr_total_replacements =
                          Some (sum_list (map rr_count replacement_records)),
                        tr_message =
                          Msg_done (length identified_terms)
                            (sum_list (map rr_count replacement_records)) \<rparr>))"

section \<open>Services for concrete evaluation\<close>

text \<open>
  A dictionary with the terms \<open>Risk\<close>, \<open>ROE\<close> and \<open>Credit Risk\<close>, and a vector service
  that answers every query with \<open>ROE\<close> at similarity 0.72 and \<open>Risk\<close> at 0.4, cut to
  \<open>top_k\<close> results; on the query \<open>boom\<close> it raises.
\<close>

definition ex_terms :: "row list" where
  "ex_terms =
     [\<lparr> row_term = cps ''Risk'', row_label = cps ''FINANCE'' \<rparr>,
      \<lparr> row_term = cps ''ROE'', row_label = cps ''FINANCE'' \<rparr>,
      \<lparr> row_term = cps ''Credit Risk'', row_label = cps ''FINANCE'' \<rparr>]"

definition ex_search :: "pstr \<Rightarrow> int \<Rightarrow> error + sem_result list" where
  "ex_search query top_k =
     (if query = cps ''boom'' then Inl RetrievalError
      else Inr (take (nat top_k)
             [\<lparr> sr_term = cps ''ROE'', sr_similarity = 72 / 100 \<rparr>,
              \<lparr> sr_term = cps ''Risk'', sr_similarity = 4 / 10 \<rparr>]))"

definition ex_vs :: vector_service where
  "ex_vs = \<lparr> is_initialized = True, search_similar = ex_search \<rparr>"

definition ex_service :: term_service where
  "ex_service = \<lparr> data_loader = ex_terms, vector_service = Some ex_vs \<rparr>"

text \<open>
  A dictionary with the single term \<open>standard\<close>, and a vector service that answers every
  query with that term at similarity 0.9.
\<close>

definition esc_vs :: "pstr \<Rightarrow> vector_service" where
  "esc_vs standard =
     \<lparr> is_initialized = True,
       search_similar =
         (\<lambda>query top_k. Inr (take (nat top_k)
             [\<lparr> sr_term = standard, sr_similarity = 9 / 10 \<rparr>])) \<rparr>"

definition esc_service :: "pstr \<Rightarrow> term_service" where
  "esc_service standard =
     \<lparr> data_loader = [\<lparr> row_term = standard, row_label = cps ''FINANCE'' \<rparr>],
       vector_service = Some (esc_vs standard) \<rparr>"

text \<open>A text with Latin words and a CJK run: \<open>ab cd ef\<close>, a space, U+4E2D U+6587.\<close>

definition mixed_text :: pstr where
  "mixed_text = cps ''ab cd ef '' @ [20013, 25991]"

section \<open>Descriptions to compare the code with\<close>

text \<open>
  What one candidate contributes to the identification pass, as the description of the
  pass states it: after an exact hit, an \<open>exact\<close> term when the standard differs from the
  candidate and no query to the vector service; without an exact hit, one query with
  \<^verbatim>\<open>top_k=1\<close> and a \<open>semantic\<close> term when the first result is similar enough and differs
  from the candidate up to case.
\<close>

definition emitted_for ::
  "pyrt \<Rightarrow> row list \<Rightarrow> vector_service \<Rightarrow> real \<Rightarrow> pstr \<Rightarrow> identified_term list"
where
  "emitted_for U terms_df vs similarity_threshold c =
     (case search_exact U terms_df c of
        m # ms \<Rightarrow>
          if c \<noteq> row_term m
          then [\<lparr> it_original = c, it_standard = row_term m,
                   it_similarity = 1, it_match_type = Exact \<rparr>]
          else []
      | [] \<Rightarrow>
          (case search_similar vs c 1 of
             Inl e \<Rightarrow> []
           | Inr [] \<Rightarrow> []
           | Inr (b # bs) \<Rightarrow>
               if similarity_threshold \<le> sr_similarity b
                  \<and> py_lower U c \<noteq> py_lower U (sr_term b)
               then [\<lparr> it_original = c, it_standard = sr_term b,
                        it_similarity = sr_similarity b, it_match_type = Semantic \<rparr>]
               else []))"

definition queried_for :: "pyrt \<Rightarrow> row list \<Rightarrow> pstr \<Rightarrow> (pstr \<times> int) list" where
  "queried_for U terms_df c = (if search_exact U terms_df c = [] then [(c, 1)] else [])"

text \<open>
  The candidate list as the description of the extraction states it: of the elements
  with the same key, only the first is kept, and the order of the kept elements is
  unchanged.
\<close>

function dedup_first :: "('a \<Rightarrow> 'b) \<Rightarrow> 'a list \<Rightarrow> 'a list" where
  "dedup_first key [] = []"
| "dedup_first key (x # xs) = x # dedup_first key (filter (\<lambda>y. key y \<noteq> key x) xs)"
  by pat_completeness auto
termination
  by (relation "measure (\<lambda>(key, xs). length xs)") (auto simp: less_Suc_eq_le)

text \<open>
  The shape of a match, leaving the word boundaries aside: \<open>fits p w\<close> holds when the
  string \<open>w\<close> splits into pieces that belong, in order, to the classes of the items of
  \<open>p\<close>. A token starts with a Latin letter and goes on with letters, digits, hyphens,
  slashes and ampersands.
\<close>

fun fits :: "item list \<Rightarrow> pstr \<Rightarrow> bool" where
  "fits [] w = (w = [])"
| "fits (Bnd # p) w = fits p w"
| "fits (One c # p) w = (case w of [] \<Rightarrow> False | x # xs \<Rightarrow> c x \<and> fits p xs)"
| "fits (Star c # p) w =
     list_ex (\<lambda>k. list_all c (take k w) \<and> fits p (drop k w)) [0 ..< Suc (length w)]"
| "fits (Rep c lo hi # p) w =
     list_ex (\<lambda>k. lo \<le> k \<and> k \<le> hi \<and> list_all c (take k w) \<and> fits p (drop k w))
       [0 ..< Suc (length w)]"

definition is_token :: "pstr \<Rightarrow> bool" where
  "is_token w = (case w of [] \<Rightarrow> False | x # xs \<Rightarrow> latin_start x \<and> list_all latin_cont xs)"

definition is_spaces :: "pstr \<Rightarrow> bool" where
  "is_spaces s = (s \<noteq> [] \<and> list_all py_space s)"

text \<open>
  The replacement pass as its description states it: the terms are taken in the given
  order; every whole-word occurrence of the original, whatever its case, is substituted
  with the standard term, in the text as the previous terms left it; the substitutions
  are counted; a record is written when the count is positive.
\<close>

definition substitute_all :: "pyrt \<Rightarrow> pstr \<Rightarrow> pstr \<Rightarrow> pstr \<Rightarrow> pstr \<times> nat" where
  "substitute_all U original replacement tx =
     subn_from U (whole_word_pattern U original) replacement None tx 0"

fun replace_described :: "pyrt \<Rightarrow> identified_term list \<Rightarrow> pstr \<Rightarrow> pstr \<times> replacement_record list" where
  "replace_described U [] tx = (tx, [])"
| "replace_described U (item # items) tx =
     (let (replaced, n) = substitute_all U (it_original item) (it_standard item) tx;
          (final, records) = replace_described U items replaced
      in (final, (if 0 < n then [mk_record item n] else []) @ records))"

text \<open>
  A whole-word occurrence of \<open>original\<close> at a position: a word boundary, the characters
  of \<open>original\<close> up to case, and a word boundary again.
\<close>

definition occurs_at :: "pyrt \<Rightarrow> pstr \<Rightarrow> nat option \<Rightarrow> pstr \<Rightarrow> bool" where
  "occurs_at U original prev rest =
     (at_boundary U prev rest
      \<and> length original \<le> length rest
      \<and> list_all2 (ci_eq U) original (take (length original) rest)
      \<and> at_boundary U (if original = [] then prev else Some (rest ! (length original - 1)))
            (drop (length original) rest))"

section \<open>Rounding\<close>

lemma round_half_even_of_int: "round_half_even (of_int k) = k"
  by (simp add: round_half_even_def)

lemma round_half_even_bounds:
  "of_int a \<le> x \<Longrightarrow> x \<le> of_int b \<Longrightarrow> a \<le> round_half_even x \<and> round_half_even x \<le> b"
  unfolding round_half_even_def Let_def
  by (auto simp: le_floor_iff floor_le_iff) linarith+

text \<open>
  Rounding to four decimals and then, after the scaling by 100, to two decimals is
  rounding once: both round at the fourth decimal of the similarity.
\<close>

lemma py_round_4_then_2: "py_round (py_round s 4 * 100) 2 = py_round (s * 100) 2"
proof -
  have a: "py_round s 4 * 100 * 10 ^ 2 = of_int (round_half_even (s * 10 ^ 4))"
    by (simp add: py_round_def)
  have b: "s * 100 * 10 ^ 2 = s * 10 ^ 4" by simp
  have "py_round (py_round s 4 * 100) 2
      = of_int (round_half_even (py_round s 4 * 100 * 10 ^ 2)) / 10 ^ 2"
    by (simp only: py_round_def)
  also have "\<dots> = of_int (round_half_even (s * 10 ^ 4)) / 10 ^ 2"
    by (simp only: a round_half_even_of_int)
  also have "\<dots> = of_int (round_half_even (s * 100 * 10 ^ 2)) / 10 ^ 2"
    by (simp only: b)
  also have "\<dots> = py_round (s * 100) 2"
    by (simp only: py_round_def)
  finally show ?thesis .
qed

lemma py_round_unit: "0 \<le> s \<Longrightarrow> s \<le> 1 \<Longrightarrow> 0 \<le> py_round s 4 \<and> py_round s 4 \<le> 1"
  using round_half_even_bounds [of 0 "s * 10 ^ 4" 10000]
  by (simp add: py_round_def)

lemma py_round_exact: "py_round (1 * 100) 2 = 100"
  using round_half_even_of_int [of 10000] by (simp add: py_round_def)

section \<open>Evaluation of the example services\<close>

lemmas ev = cps_def py_lower_def is_ascii_def ascii_tolower_def ascii_upper_def
  search_exact_def ex_terms_def ex_service_def ex_vs_def ex_search_def

section \<open>standardize: the exact strategy\<close>

lemma search_exact_hit:
  assumes "r \<in> set terms_df" and "py_lower U (row_term r) = py_lower U query"
  shows "\<exists>m ms. search_exact U terms_df query = m # ms \<and> m \<in> set terms_df
      \<and> py_lower U (row_term m) = py_lower U query"
proof -
  from assms have "r \<in> set (search_exact U terms_df query)"
    by (simp add: search_exact_def)
  then obtain m ms where e: "search_exact U terms_df query = m # ms"
    by (cases "search_exact U terms_df query") auto
  then have "m \<in> set (search_exact U terms_df query)" by simp
  then have "m \<in> set terms_df \<and> py_lower U (row_term m) = py_lower U query"
    by (simp add: search_exact_def)
  with e show ?thesis by blast
qed

text \<open>
  C1, as stated, fails at the empty query: \<^verbatim>\<open>standardize\<close> tests \<^verbatim>\<open>not query\<close> before the
  dictionary lookup. With a dictionary that holds the empty term (a CSV cell of blanks,
  stripped by the loader) the empty query equals a canonical term and the outcome is
  \<open>none\<close> with score 0.
\<close>

theorem standardize_empty_query_counterexample:
  "py_lower ascii_rt (row_term \<lparr> row_term = [], row_label = [] \<rparr>) = py_lower ascii_rt []
   \<and> mr_match_type
        (standardize ascii_rt
           \<lparr> data_loader = [\<lparr> row_term = [], row_label = [] \<rparr>], vector_service = None \<rparr>
           [] (65 / 100)) = No_match
   \<and> mr_score
        (standardize ascii_rt
           \<lparr> data_loader = [\<lparr> row_term = [], row_label = [] \<rparr>], vector_service = None \<rparr>
           [] (65 / 100)) = 0"
  by (simp add: standardize_def empty_query_result_def)

text \<open>
  C1 (amended): for every non-empty query that equals some canonical term of the
  dictionary after \<^verbatim>\<open>lower()\<close> on both sides, \<^verbatim>\<open>standardize\<close> returns match type \<open>exact\<close>,
  score 100, similarity 1.0 and no candidates, the standard term being a canonical term
  equal to the query up to case. This holds for every threshold \<open>t\<close> and every vector
  service \<open>v\<close>: absent, uninitialized, raising, or returning anything.
\<close>

theorem standardize_exact_precedence:
  assumes "query \<noteq> []" and "r \<in> set terms_df"
    and "py_lower U (row_term r) = py_lower U query"
  shows "\<exists>m. m \<in> set terms_df \<and> py_lower U (row_term m) = py_lower U query \<and>
     standardize U \<lparr> data_loader = terms_df, vector_service = v \<rparr> query t =
       \<lparr> mr_query = query, mr_standard_term = Some (row_term m), mr_score = 100,
         mr_match_type = Exact, mr_similarity = Some 1, mr_message = Msg_exact,
         mr_candidates = [] \<rparr>"
proof -
  from search_exact_hit [OF assms(2,3)] obtain m ms where
    e: "search_exact U terms_df query = m # ms" and
    m: "m \<in> set terms_df" "py_lower U (row_term m) = py_lower U query" by blast
  from e assms(1)
  have "standardize U \<lparr> data_loader = terms_df, vector_service = v \<rparr> query t =
       \<lparr> mr_query = query, mr_standard_term = Some (row_term m), mr_score = 100,
         mr_match_type = Exact, mr_similarity = Some 1, mr_message = Msg_exact,
         mr_candidates = [] \<rparr>"
    by (simp add: standardize_def)
  with m show ?thesis by blast
qed

theorem standardize_exact_precedence_witness:
  "cps ''roe'' \<noteq> []
   \<and> py_lower ascii_rt (cps ''ROE'') = py_lower ascii_rt (cps ''roe'')
   \<and> mr_match_type (standardize ascii_rt ex_service (cps ''roe'') (65 / 100)) = Exact
   \<and> mr_score (standardize ascii_rt ex_service (cps ''roe'') (65 / 100)) = 100
   \<and> mr_similarity (standardize ascii_rt ex_service (cps ''roe'') (65 / 100)) = Some 1
   \<and> mr_candidates (standardize ascii_rt ex_service (cps ''roe'') (65 / 100)) = []"
proof -
  have h1: "cps ''roe'' \<noteq> []" by (simp add: cps_def)
  have h2: "\<lparr> row_term = cps ''ROE'', row_label = cps ''FINANCE'' \<rparr> \<in> set ex_terms"
    by (simp add: ex_terms_def)
  have h3: "py_lower ascii_rt (row_term \<lparr> row_term = cps ''ROE'', row_label = cps ''FINANCE'' \<rparr>)
      = py_lower ascii_rt (cps ''roe'')"
    by (simp add: ev)
  have s: "ex_service = \<lparr> data_loader = ex_terms, vector_service = Some ex_vs \<rparr>"
    by (simp add: ex_service_def)
  from standardize_exact_precedence [OF h1 h2 h3, of "Some ex_vs" "65 / 100"] h1 h3
  show ?thesis unfolding s by auto
qed

section \<open>standardize: the semantic strategy\<close>

text \<open>
  C2: for a non-empty query without an exact match, when the vector service is there and
  initialized and \<^verbatim>\<open>search_similar(query, top_k=5)\<close> returns a non-empty list with first
  (best) similarity \<open>s\<close>, of at most the five results asked for: the match type is
  \<open>semantic\<close> if and only if \<open>t \<le> s\<close>, then with the best term as standard term; otherwise
  it is \<open>semantic_low\<close> without a standard term. In both cases the score is
  \<open>round(s * 100, 2)\<close>, and the candidates are one entry per result in the order of
  retrieval, the same list for any two thresholds \<open>t\<close> and \<open>t'\<close>, of at most 5 entries.
\<close>

theorem standardize_threshold_boundary:
  assumes "query \<noteq> []"
    and "search_exact U (data_loader ts) query = []"
    and "vector_service ts = Some vs" and "is_initialized vs"
    and "search_similar vs query 5 = Inr (best # others)"
    and "length (best # others) \<le> 5"
  shows "(mr_match_type (standardize U ts query t) = Semantic \<longleftrightarrow> t \<le> sr_similarity best)
    \<and> (t \<le> sr_similarity best \<longrightarrow>
          mr_match_type (standardize U ts query t) = Semantic
          \<and> mr_standard_term (standardize U ts query t) = Some (sr_term best))
    \<and> (\<not> t \<le> sr_similarity best \<longrightarrow>
          mr_match_type (standardize U ts query t) = Semantic_low
          \<and> mr_standard_term (standardize U ts query t) = None)
    \<and> mr_score (standardize U ts query t) = py_round (sr_similarity best * 100) 2
    \<and> mr_candidates (standardize U ts query t) = map mk_candidate (best # others)
    \<and> mr_candidates (standardize U ts query t) = mr_candidates (standardize U ts query t')
    \<and> length (mr_candidates (standardize U ts query t)) \<le> 5"
proof -
  have s: "\<And>x. standardize U ts query x =
      (case semantic_strategy vs query x of Some r \<Rightarrow> r | None \<Rightarrow> not_found_result query x)"
    using assms(1-4) by (simp add: standardize_def)
  show ?thesis
    using assms(5,6) by (simp add: s semantic_strategy_def Let_def)
qed

theorem standardize_threshold_boundary_witness:
  "cps ''equity'' \<noteq> []
   \<and> search_exact ascii_rt (data_loader ex_service) (cps ''equity'') = []
   \<and> vector_service ex_service = Some ex_vs \<and> is_initialized ex_vs
   \<and> mr_match_type (standardize ascii_rt ex_service (cps ''equity'') (65 / 100)) = Semantic
   \<and> mr_standard_term (standardize ascii_rt ex_service (cps ''equity'') (65 / 100))
        = Some (cps ''ROE'')
   \<and> mr_match_type (standardize ascii_rt ex_service (cps ''equity'') (8 / 10)) = Semantic_low
   \<and> mr_standard_term (standardize ascii_rt ex_service (cps ''equity'') (8 / 10)) = None
   \<and> mr_candidates (standardize ascii_rt ex_service (cps ''equity'') (65 / 100))
        = mr_candidates (standardize ascii_rt ex_service (cps ''equity'') (8 / 10))
   \<and> length (mr_candidates (standardize ascii_rt ex_service (cps ''equity'') (65 / 100))) = 2"
proof -
  let ?best = "\<lparr> sr_term = cps ''ROE'', sr_similarity = 72 / 100 \<rparr>"
  let ?others = "[\<lparr> sr_term = cps ''Risk'', sr_similarity = 4 / 10 \<rparr>]"
  have h1: "cps ''equity'' \<noteq> []" by (simp add: cps_def)
  have h2: "search_exact ascii_rt (data_loader ex_service) (cps ''equity'') = []"
    by (simp add: ev)
  have h3: "vector_service ex_service = Some ex_vs" by (simp add: ex_service_def)
  have h4: "is_initialized ex_vs" by (simp add: ex_vs_def)
  have h5: "search_similar ex_vs (cps ''equity'') 5 = Inr (?best # ?others)"
    by (simp add: ev)
  have h6: "length (?best # ?others) \<le> 5" by simp
  from standardize_threshold_boundary [OF h1 h2 h3 h4 h5 h6, of "65 / 100" "8 / 10"]
       standardize_threshold_boundary [OF h1 h2 h3 h4 h5 h6, of "8 / 10" "65 / 100"]
       h1 h2 h3 h4
  show ?thesis by simp
qed

section \<open>The identification pass, candidate by candidate\<close>

lemma identify_step_eq:
  "identify_step U terms_df vs thr c st =
     (fst st @ emitted_for U terms_df vs thr c, snd st @ queried_for U terms_df c)"
  by (cases st)
     (simp add: identify_step_def emitted_for_def queried_for_def
           split: list.splits sum.splits)

lemma fold_identify_step:
  "fold (identify_step U terms_df vs thr) cands st =
     (fst st @ concat (map (emitted_for U terms_df vs thr) cands),
      snd st @ concat (map (queried_for U terms_df) cands))"
  by (induction cands arbitrary: st) (simp_all add: identify_step_eq)

lemma identification_pass_concat:
  "identification_pass U terms_df vs thr cands =
     (concat (map (emitted_for U terms_df vs thr) cands),
      concat (map (queried_for U terms_df) cands))"
  by (simp add: identification_pass_def fold_identify_step)

section \<open>get\_similar\_terms\<close>

text \<open>
  For a positive limit the loop is a filter followed by a truncation to \<open>limit\<close> entries,
  in the order of retrieval.
\<close>

lemma collect_similar_take:
  "0 < limit \<Longrightarrow> int (length acc) < limit \<Longrightarrow>
   collect_similar U term limit thr results acc =
     take (nat limit)
       (acc @ map (\<lambda>r. \<lparr> st_term = sr_term r, st_similarity = py_round (sr_similarity r) 4 \<rparr>)
                (filter (\<lambda>r. py_lower U (sr_term r) \<noteq> py_lower U term \<and> thr \<le> sr_similarity r)
                   results))"
proof (induction results arbitrary: acc)
  case Nil
  then show ?case by simp
next
  case (Cons r rs)
  show ?case
  proof (cases "py_lower U (sr_term r) \<noteq> py_lower U term \<and> thr \<le> sr_similarity r")
    case False
    with Cons show ?thesis by auto
  next
    case keep: True
    let ?e = "\<lparr> st_term = sr_term r, st_similarity = py_round (sr_similarity r) 4 \<rparr>"
    show ?thesis
    proof (cases "limit \<le> int (length (acc @ [?e]))")
      case True
      with Cons.prems have "nat limit = length (acc @ [?e])" by simp
      with keep True show ?thesis by (simp add: Let_def)
    next
      case False
      then have "int (length (acc @ [?e])) < limit" by simp
      from Cons.IH [OF Cons.prems(1) this] keep False show ?thesis
        by (simp add: Let_def)
    qed
  qed
qed

lemma get_similar_terms_positive_limit:
  assumes "0 < limit" and "vector_service ts = Some vs" and "is_initialized vs"
    and "search_similar vs term (limit + 5) = Inr results"
  shows "get_similar_terms U ts term limit thr =
     take (nat limit)
       (map (\<lambda>r. \<lparr> st_term = sr_term r, st_similarity = py_round (sr_similarity r) 4 \<rparr>)
          (filter (\<lambda>r. py_lower U (sr_term r) \<noteq> py_lower U term \<and> thr \<le> sr_similarity r)
             results))"
  using assms collect_similar_take [of limit "[]" U "term" thr results]
  by (simp add: get_similar_terms_def)

lemma get_similar_terms_unavailable:
  "vector_service ts = None \<or> (\<exists>vs. vector_service ts = Some vs \<and> \<not> is_initialized vs)
   \<Longrightarrow> get_similar_terms U ts term limit thr = []"
  by (auto simp: get_similar_terms_def)

lemma collect_similar_excludes:
  "\<forall>e \<in> set acc. py_lower U (st_term e) \<noteq> py_lower U term \<Longrightarrow>
   \<forall>e \<in> set (collect_similar U term limit thr results acc).
      py_lower U (st_term e) \<noteq> py_lower U term"
proof (induction results arbitrary: acc)
  case Nil
  then show ?case by simp
next
  case (Cons r rs)
  let ?e = "\<lparr> st_term = sr_term r, st_similarity = py_round (sr_similarity r) 4 \<rparr>"
  show ?case
  proof (cases "py_lower U (sr_term r) \<noteq> py_lower U term \<and> thr \<le> sr_similarity r")
    case False
    with Cons show ?thesis by auto
  next
    case True
    with Cons.prems
    have acc': "\<forall>e \<in> set (acc @ [?e]). py_lower U (st_term e) \<noteq> py_lower U term"
      by simp
    from Cons.IH [OF acc'] acc' True show ?thesis
      by (simp add: Let_def)
  qed
qed

text \<open>
  C7: \<^verbatim>\<open>get_similar_terms\<close> is to return at most \<open>limit\<close> entries. The loop tests the length
  after the \<^verbatim>\<open>append\<close>, so with \<open>limit = 0\<close> the first result that passes the filter is
  returned: one entry where none is allowed.
\<close>

theorem get_similar_terms_limit_zero:
  "get_similar_terms ascii_rt ex_service (cps ''equity'') 0 (5 / 10)
     = [\<lparr> st_term = cps ''ROE'', st_similarity = 72 / 100 \<rparr>]"
  by (simp add: get_similar_terms_def ev py_round_def round_half_even_def)

section \<open>identify\_and\_replace\_terms: the early return\<close>

text \<open>
  C9: for the empty text the call returns without an exception, with the input as
  original and processed text and with no identified terms and no replacements; but the
  returned dictionary has no key \<^verbatim>\<open>'total_replacements'\<close>, which the other
  \<^verbatim>\<open>return\<close> of the function does set.
\<close>

theorem identify_empty_text_no_total:
  "identify_and_replace_terms U ts [] similarity_threshold min_word_length =
     Inr \<lparr> tr_original_text = [], tr_processed_text = [],
           tr_identified_terms = [], tr_replacements = [],
           tr_total_replacements = None, tr_message = Msg_unavailable \<rparr>"
  by (simp add: identify_and_replace_terms_def)


section \<open>Failures of the vector service\<close>

lemma re_sub_error: "re_sub U p repl tx = Inl e \<Longrightarrow> e = ReError"
  by (auto simp: re_sub_def expand_template_def split: if_splits option.splits sum.splits)

lemma replace_loop_error: "replace_loop U items tx recs = Inl e \<Longrightarrow> e = ReError"
proof (induction items arbitrary: tx recs)
  case Nil
  then show ?case by simp
next
  case (Cons item items)
  then show ?case
    by (auto simp: Let_def split: if_splits sum.splits dest: re_sub_error)
qed

lemma identify_and_replace_terms_error:
  "identify_and_replace_terms U ts text thr mwl = Inl e \<Longrightarrow> e = ReError"
  by (auto simp: identify_and_replace_terms_def Let_def
           split: option.splits sum.splits if_splits dest: replace_loop_error)

text \<open>
  C6: an exception of \<^verbatim>\<open>search_similar\<close> does not reach the caller. In \<^verbatim>\<open>standardize\<close>
  the query gets the \<open>none\<close> outcome. In the identification pass the candidate \<open>c\<close> on
  which the call raises contributes nothing, and the candidates \<open>before\<close> and \<open>after\<close> it
  are identified as if \<open>c\<close> were not there. \<^verbatim>\<open>identify_and_replace_terms\<close> never ends with
  the error of the vector service.
\<close>

theorem retrieval_failure_contained:
  "(query \<noteq> [] \<and> search_exact U (data_loader ts) query = []
      \<and> vector_service ts = Some vs \<and> is_initialized vs
      \<and> search_similar vs query 5 = Inl e
    \<longrightarrow> standardize U ts query t = not_found_result query t
        \<and> mr_match_type (standardize U ts query t) = No_match)
   \<and> (search_exact U terms_df c = [] \<and> search_similar vs c 1 = Inl e
    \<longrightarrow> fst (identification_pass U terms_df vs thr (before @ c # after))
          = fst (identification_pass U terms_df vs thr before)
            @ fst (identification_pass U terms_df vs thr after)
        \<and> fst (identification_pass U terms_df vs thr (before @ c # after))
          = fst (identification_pass U terms_df vs thr (before @ after)))
   \<and> identify_and_replace_terms U ts text thr mwl \<noteq> Inl RetrievalError"
proof (intro conjI impI)
  assume a: "query \<noteq> [] \<and> search_exact U (data_loader ts) query = []
      \<and> vector_service ts = Some vs \<and> is_initialized vs
      \<and> search_similar vs query 5 = Inl e"
  then show r: "standardize U ts query t = not_found_result query t"
    by (simp add: standardize_def semantic_strategy_def)
  show "mr_match_type (standardize U ts query t) = No_match"
    by (simp add: r not_found_result_def)
next
  assume a: "search_exact U terms_df c = [] \<and> search_similar vs c 1 = Inl e"
  then have skip: "emitted_for U terms_df vs thr c = []"
    by (simp add: emitted_for_def)
  show "fst (identification_pass U terms_df vs thr (before @ c # after))
          = fst (identification_pass U terms_df vs thr before)
            @ fst (identification_pass U terms_df vs thr after)"
    by (simp add: identification_pass_concat skip)
  show "fst (identification_pass U terms_df vs thr (before @ c # after))
          = fst (identification_pass U terms_df vs thr (before @ after))"
    by (simp add: identification_pass_concat skip)
next
  show "identify_and_replace_terms U ts text thr mwl \<noteq> Inl RetrievalError"
    using identify_and_replace_terms_error [of U ts "text" thr mwl RetrievalError] by auto
qed

lemmas ev_pass = identification_pass_concat emitted_for_def queried_for_def

theorem retrieval_failure_contained_witness:
  "search_exact ascii_rt (data_loader ex_service) (cps ''boom'') = []
   \<and> search_similar ex_vs (cps ''boom'') 5 = Inl RetrievalError
   \<and> search_similar ex_vs (cps ''boom'') 1 = Inl RetrievalError
   \<and> mr_match_type (standardize ascii_rt ex_service (cps ''boom'') (65 / 100)) = No_match
   \<and> map it_original
        (fst (identification_pass ascii_rt ex_terms ex_vs (6 / 10)
               ([cps ''equity''] @ cps ''boom'' # [cps ''roe''])))
      = [cps ''equity'', cps ''roe'']"
proof -
  have h1: "cps ''boom'' \<noteq> []" by (simp add: cps_def)
  have h2: "search_exact ascii_rt (data_loader ex_service) (cps ''boom'') = []"
    by (simp add: ev)
  have h2': "search_exact ascii_rt ex_terms (cps ''boom'') = []"
    by (simp add: ev)
  have h3: "vector_service ex_service = Some ex_vs" by (simp add: ex_service_def)
  have h4: "is_initialized ex_vs" by (simp add: ex_vs_def)
  have h5: "search_similar ex_vs (cps ''boom'') 5 = Inl RetrievalError"
    by (simp add: ev)
  have h6: "search_similar ex_vs (cps ''boom'') 1 = Inl RetrievalError"
    by (simp add: ev)
  have rest: "map it_original
       (fst (identification_pass ascii_rt ex_terms ex_vs (6 / 10) [cps ''equity''])
        @ fst (identification_pass ascii_rt ex_terms ex_vs (6 / 10) [cps ''roe'']))
      = [cps ''equity'', cps ''roe'']"
    by (simp add: ev_pass ev)
  from retrieval_failure_contained
         [of "cps ''boom''" ascii_rt ex_service ex_vs RetrievalError "65 / 100"
             ex_terms "cps ''boom''" "6 / 10" "[cps ''equity'']" "[cps ''roe'']" "[]" 2]
       h1 h2 h2' h3 h4 h5 h6 rest
  show ?thesis by (simp add: not_found_result_def)
qed

section \<open>standardize: score and similarity\<close>

text \<open>
  C8: every result of \<^verbatim>\<open>standardize\<close> is to hold a similarity in [0, 1] with a score of
  \<open>round(similarity * 100, 2)\<close>, the empty-query and the no-match outcome included. The
  two returns with match type \<open>none\<close> build a dictionary without the key
  \<^verbatim>\<open>'similarity'\<close>, which the three other returns of the function set: for the empty query
  and for a query on which retrieval fails the result holds no similarity.
\<close>

theorem standardize_none_has_no_similarity:
  "mr_similarity (standardize ascii_rt ex_service [] (65 / 100)) = None
   \<and> mr_similarity (standardize ascii_rt ex_service (cps ''boom'') (65 / 100)) = None"
  by (simp add: standardize_def empty_query_result_def not_found_result_def
        semantic_strategy_def ev)

text \<open>
  The rest of the claim holds: a result either has no similarity, and then its match
  type is \<open>none\<close> and its score 0, or it has a similarity \<open>s\<close> with a match type other
  than \<open>none\<close> and the score \<open>round(s * 100, 2)\<close>, where \<open>s\<close> is in [0, 1] provided that the
  best similarity reported by the vector service is.
\<close>

lemma standardize_score_similarity:
  assumes "\<forall>vs best others. vector_service ts = Some vs
             \<and> search_similar vs query 5 = Inr (best # others)
           \<longrightarrow> 0 \<le> sr_similarity best \<and> sr_similarity best \<le> 1"
  shows "case mr_similarity (standardize U ts query t) of
           None \<Rightarrow> mr_match_type (standardize U ts query t) = No_match
                   \<and> mr_score (standardize U ts query t) = 0
         | Some s \<Rightarrow> mr_match_type (standardize U ts query t) \<noteq> No_match
                   \<and> 0 \<le> s \<and> s \<le> 1
                   \<and> mr_score (standardize U ts query t) = py_round (s * 100) 2"
proof (cases "query = []")
  case True
  then show ?thesis by (simp add: standardize_def empty_query_result_def)
next
  case q: False
  show ?thesis
  proof (cases "search_exact U (data_loader ts) query")
    case (Cons m ms)
    with q py_round_exact show ?thesis by (simp add: standardize_def)
  next
    case Nil
    show ?thesis
    proof (cases "vector_service ts")
      case None
      with q Nil show ?thesis by (simp add: standardize_def not_found_result_def)
    next
      case (Some vs)
      show ?thesis
      proof (cases "search_similar vs query 5")
        case (Inl e)
        with q Nil Some show ?thesis
          by (simp add: standardize_def not_found_result_def semantic_strategy_def)
      next
        case (Inr rs)
        show ?thesis
        proof (cases rs)
          case Nil': Nil
          with q Nil Some Inr show ?thesis
            by (simp add: standardize_def not_found_result_def semantic_strategy_def)
        next
          case (Cons best others)
          with assms Some Inr have "0 \<le> sr_similarity best \<and> sr_similarity best \<le> 1"
            by blast
          then have "0 \<le> py_round (sr_similarity best) 4 \<and> py_round (sr_similarity best) 4 \<le> 1"
            using py_round_unit by blast
          with q Nil Some Inr Cons show ?thesis
            by (simp add: standardize_def not_found_result_def semantic_strategy_def
                  Let_def py_round_4_then_2)
        qed
      qed
    qed
  qed
qed

lemma standardize_score_similarity_example:
  "mr_similarity (standardize ascii_rt ex_service (cps ''equity'') (65 / 100)) = Some (72 / 100)
   \<and> mr_score (standardize ascii_rt ex_service (cps ''equity'') (65 / 100))
       = py_round (72 / 100 * 100) 2
   \<and> mr_match_type (standardize ascii_rt ex_service (cps ''equity'') (65 / 100)) \<noteq> No_match"
proof -
  have h: "\<forall>vs best others. vector_service ex_service = Some vs
             \<and> search_similar vs (cps ''equity'') 5 = Inr (best # others)
           \<longrightarrow> 0 \<le> sr_similarity best \<and> sr_similarity best \<le> 1"
    by (auto simp: ev)
  have v: "mr_similarity (standardize ascii_rt ex_service (cps ''equity'') (65 / 100))
      = Some (72 / 100)"
    by (simp add: standardize_def semantic_strategy_def ev Let_def py_round_def
          round_half_even_def)
  from standardize_score_similarity [OF h, of ascii_rt "65 / 100"] v
  show ?thesis by simp
qed

section \<open>The identification pass: exact hits and semantic matches\<close>

lemma emitted_for_original: "it \<in> set (emitted_for U terms_df vs thr c) \<Longrightarrow> it_original it = c"
  by (auto simp: emitted_for_def split: list.splits sum.splits if_splits)

lemma emitted_for_exact_same:
  "search_exact U terms_df c = m # ms \<Longrightarrow> row_term m = c \<Longrightarrow> emitted_for U terms_df vs thr c = []"
  by (simp add: emitted_for_def)

lemma emitted_for_exact_any_service:
  "search_exact U terms_df c = m # ms \<Longrightarrow>
   emitted_for U terms_df vs' thr c = emitted_for U terms_df vs thr c"
  by (simp add: emitted_for_def)

lemma emitted_for_cong:
  "search_similar vs' c 1 = search_similar vs c 1 \<Longrightarrow>
   emitted_for U terms_df vs' thr c = emitted_for U terms_df vs thr c"
  by (simp add: emitted_for_def split: list.splits)

lemma set_sorted_terms: "set (sorted_terms xs) = set xs"
  by (simp add: sorted_terms_def)

lemma replace_loop_originals:
  "replace_loop U items tx recs = Inr (tx', recs') \<Longrightarrow>
   set (map rr_original recs') \<subseteq> set (map rr_original recs) \<union> set (map it_original items)"
proof (induction items arbitrary: tx recs)
  case Nil
  then show ?case by auto
next
  case (Cons item items)
  let ?p = "whole_word_pattern U (it_original item)"
  let ?n = "length (findall U ?p tx)"
  show ?case
  proof (cases "0 < ?n")
    case False
    with Cons.prems have "replace_loop U items tx recs = Inr (tx', recs')"
      by (simp add: Let_def)
    from Cons.IH [OF this] show ?thesis by auto
  next
    case True
    with Cons.prems obtain replaced where
      "replace_loop U items replaced (recs @ [mk_record item ?n]) = Inr (tx', recs')"
      by (auto simp: Let_def split: sum.splits)
    from Cons.IH [OF this] show ?thesis by (auto simp: mk_record_def)
  qed
qed

text \<open>
  C5 (amended): the identification pass handles the candidates in the order of
  extraction, each on its own. When the exact lookup hits, the vector service is not
  queried for the candidate, and a term with match type \<open>exact\<close> and similarity 1.0 is
  emitted exactly when the first matched standard differs from the candidate
  (case-sensitively). When the exact lookup does not hit, the vector service is queried
  once with \<^verbatim>\<open>top_k=1\<close>, and a term with match type \<open>semantic\<close> is emitted if and only if
  the call returns a non-empty list whose first result has a similarity of at least the
  threshold and a term that differs from the candidate up to case.
\<close>

theorem identification_pass_characterised:
  "identification_pass U terms_df vs thr cands =
     (concat (map (emitted_for U terms_df vs thr) cands),
      concat (map (queried_for U terms_df) cands))
   \<and> (search_exact U terms_df c = m # ms \<longrightarrow>
        queried_for U terms_df c = []
        \<and> emitted_for U terms_df vs thr c =
            (if c \<noteq> row_term m
             then [\<lparr> it_original = c, it_standard = row_term m,
                      it_similarity = 1, it_match_type = Exact \<rparr>]
             else []))
   \<and> (search_exact U terms_df c = [] \<longrightarrow>
        queried_for U terms_df c = [(c, 1)]
        \<and> ((\<exists>it. emitted_for U terms_df vs thr c = [it] \<and> it_match_type it = Semantic)
             \<longleftrightarrow> (\<exists>b bs. search_similar vs c 1 = Inr (b # bs)
                    \<and> thr \<le> sr_similarity b \<and> py_lower U c \<noteq> py_lower U (sr_term b)))
        \<and> (emitted_for U terms_df vs thr c = []
             \<or> (\<exists>b bs. search_similar vs c 1 = Inr (b # bs)
                  \<and> emitted_for U terms_df vs thr c =
                      [\<lparr> it_original = c, it_standard = sr_term b,
                          it_similarity = sr_similarity b, it_match_type = Semantic \<rparr>])))"
proof (intro conjI impI)
  show "identification_pass U terms_df vs thr cands =
     (concat (map (emitted_for U terms_df vs thr) cands),
      concat (map (queried_for U terms_df) cands))"
    by (rule identification_pass_concat)
next
  assume "search_exact U terms_df c = m # ms"
  then show "queried_for U terms_df c = []"
    and "emitted_for U terms_df vs thr c =
            (if c \<noteq> row_term m
             then [\<lparr> it_original = c, it_standard = row_term m,
                      it_similarity = 1, it_match_type = Exact \<rparr>]
             else [])"
    by (simp_all add: queried_for_def emitted_for_def)
next
  assume n: "search_exact U terms_df c = []"
  then show "queried_for U terms_df c = [(c, 1)]"
    by (simp add: queried_for_def)
  from n show "(\<exists>it. emitted_for U terms_df vs thr c = [it] \<and> it_match_type it = Semantic)
             \<longleftrightarrow> (\<exists>b bs. search_similar vs c 1 = Inr (b # bs)
                    \<and> thr \<le> sr_similarity b \<and> py_lower U c \<noteq> py_lower U (sr_term b))"
    by (auto simp: emitted_for_def split: sum.splits list.splits)
  from n show "emitted_for U terms_df vs thr c = []
             \<or> (\<exists>b bs. search_similar vs c 1 = Inr (b # bs)
                  \<and> emitted_for U terms_df vs thr c =
                      [\<lparr> it_original = c, it_standard = sr_term b,
                          it_similarity = sr_similarity b, it_match_type = Semantic \<rparr>])"
    by (auto simp: emitted_for_def split: sum.splits list.splits)
qed

theorem identification_pass_characterised_witness:
  "search_exact ascii_rt ex_terms (cps ''roe'')
      = [\<lparr> row_term = cps ''ROE'', row_label = cps ''FINANCE'' \<rparr>]
   \<and> search_exact ascii_rt ex_terms (cps ''equity'') = []
   \<and> identification_pass ascii_rt ex_terms ex_vs (6 / 10) [cps ''roe'', cps ''equity''] =
       ([\<lparr> it_original = cps ''roe'', it_standard = cps ''ROE'',
            it_similarity = 1, it_match_type = Exact \<rparr>,
         \<lparr> it_original = cps ''equity'', it_standard = cps ''ROE'',
            it_similarity = 72 / 100, it_match_type = Semantic \<rparr>],
        [(cps ''equity'', 1)])"
proof -
  have h1: "search_exact ascii_rt ex_terms (cps ''roe'')
      = \<lparr> row_term = cps ''ROE'', row_label = cps ''FINANCE'' \<rparr> # []"
    by (simp add: ev)
  have h2: "search_exact ascii_rt ex_terms (cps ''equity'') = []"
    by (simp add: ev)
  have h3: "search_similar ex_vs (cps ''equity'') 1
      = Inr [\<lparr> sr_term = cps ''ROE'', sr_similarity = 72 / 100 \<rparr>]"
    by (simp add: ev)
  have e: "emitted_for ascii_rt ex_terms ex_vs (6 / 10) (cps ''equity'')
      = [\<lparr> it_original = cps ''equity'', it_standard = cps ''ROE'',
            it_similarity = 72 / 100, it_match_type = Semantic \<rparr>]"
    by (simp add: emitted_for_def h2 h3) (simp add: ev)
  from identification_pass_characterised
         [of ascii_rt ex_terms ex_vs "6 / 10" "[cps ''roe'', cps ''equity'']" "cps ''roe''"
             "\<lparr> row_term = cps ''ROE'', row_label = cps ''FINANCE'' \<rparr>" "[]"]
       identification_pass_characterised
         [of ascii_rt ex_terms ex_vs "6 / 10" "[cps ''roe'', cps ''equity'']" "cps ''equity''"]
       h1 h2 e
  show ?thesis by (simp add: cps_def)
qed

text \<open>
  C5, as stated, queries the vector service for every candidate that has no exact hit
  differing from it, so also for a candidate that the dictionary holds as it is written.
  The code does not: the candidate \<open>Risk\<close> has the exact hit \<open>Risk\<close>, the vector service
  would return \<open>ROE\<close> at 0.72 for it, above the threshold and different up to case, and
  yet nothing is queried and nothing is identified.
\<close>

theorem identification_exact_same_counterexample:
  "search_exact ascii_rt ex_terms (cps ''Risk'')
      = [\<lparr> row_term = cps ''Risk'', row_label = cps ''FINANCE'' \<rparr>]
   \<and> search_similar ex_vs (cps ''Risk'') 1
      = Inr [\<lparr> sr_term = cps ''ROE'', sr_similarity = 72 / 100 \<rparr>]
   \<and> (6 / 10 :: real) \<le> 72 / 100
   \<and> py_lower ascii_rt (cps ''ROE'') \<noteq> py_lower ascii_rt (cps ''Risk'')
   \<and> identification_pass ascii_rt ex_terms ex_vs (6 / 10) [cps ''Risk''] = ([], [])"
  by (simp add: identification_pass_def identify_step_def ev)


section \<open>Exact hits are never sent to the vector service\<close>

lemma exact_hit_not_queried:
  assumes "search_exact U terms_df c = m # ms"
  shows "(c, k) \<notin> set (snd (identification_pass U terms_df vs thr cands))"
proof
  assume "(c, k) \<in> set (snd (identification_pass U terms_df vs thr cands))"
  then obtain c' where "c' \<in> set cands" "(c, k) \<in> set (queried_for U terms_df c')"
    by (auto simp: identification_pass_concat)
  then have "search_exact U terms_df c = []"
    by (auto simp: queried_for_def split: if_splits)
  with assms show False by simp
qed

lemma exact_hit_any_service:
  assumes "search_exact U terms_df c = m # ms"
    and "\<forall>q. q \<noteq> c \<longrightarrow> search_similar vs' q 1 = search_similar vs q 1"
  shows "identification_pass U terms_df vs' thr cands = identification_pass U terms_df vs thr cands"
proof -
  have "emitted_for U terms_df vs' thr x = emitted_for U terms_df vs thr x" for x
  proof (cases "x = c")
    case True
    with assms(1) show ?thesis by (blast intro: emitted_for_exact_any_service)
  next
    case False
    with assms(2) have "search_similar vs' x 1 = search_similar vs x 1" by blast
    then show ?thesis by (rule emitted_for_cong)
  qed
  then have "emitted_for U terms_df vs' thr = emitted_for U terms_df vs thr"
    by (rule ext)
  then show ?thesis by (simp only: identification_pass_concat)
qed

lemma exact_same_not_identified:
  assumes "search_exact U terms_df c = m # ms" and "row_term m = c"
    and "it \<in> set (fst (identification_pass U terms_df vs thr cands))"
  shows "it_original it \<noteq> c"
proof
  assume o: "it_original it = c"
  from assms(3) obtain c' where c': "c' \<in> set cands" "it \<in> set (emitted_for U terms_df vs thr c')"
    by (auto simp: identification_pass_concat)
  from c'(2) o have "c' = c" using emitted_for_original by blast
  with c'(2) emitted_for_exact_same [OF assms(1,2)] show False by simp
qed

lemma identify_and_replace_terms_Inr:
  assumes "identify_and_replace_terms U ts text' thr mwl = Inr r"
  shows "(tr_identified_terms r = [] \<and> tr_replacements r = [])
     \<or> (\<exists>vs pt. usable_service ts = Some vs \<and> text' \<noteq> []
          \<and> tr_identified_terms r
              = fst (identification_pass U (data_loader ts) vs thr (extract_terms U text' mwl))
          \<and> replace_loop U (sorted_terms (tr_identified_terms r)) text' []
              = Inr (pt, tr_replacements r)
          \<and> tr_processed_text r = pt
          \<and> tr_total_replacements r = Some (sum_list (map rr_count (tr_replacements r))))"
proof (cases "if text' = [] then None else usable_service ts")
  case None
  with assms have "r = \<lparr> tr_original_text = text', tr_processed_text = text',
                tr_identified_terms = [], tr_replacements = [],
                tr_total_replacements = None, tr_message = Msg_unavailable \<rparr>"
    by (simp add: identify_and_replace_terms_def)
  then show ?thesis by simp
next
  case (Some vs)
  then have u: "usable_service ts = Some vs" "text' \<noteq> []"
    by (simp_all split: if_splits)
  let ?ids = "fst (identification_pass U (data_loader ts) vs thr (extract_terms U text' mwl))"
  show ?thesis
  proof (cases "replace_loop U (sorted_terms ?ids) text' []")
    case (Inl e)
    with assms Some show ?thesis
      by (simp add: identify_and_replace_terms_def Let_def)
  next
    case (Inr pr)
    obtain pt recs where pr: "pr = (pt, recs)" by (cases pr)
    from assms Some Inr pr
    have "r = \<lparr> tr_original_text = text', tr_processed_text = pt,
                tr_identified_terms = ?ids, tr_replacements = recs,
                tr_total_replacements = Some (sum_list (map rr_count recs)),
                tr_message = Msg_done (length ?ids) (sum_list (map rr_count recs)) \<rparr>"
      by (simp add: identify_and_replace_terms_def Let_def)
    with u Inr pr show ?thesis by simp
  qed
qed

lemma exact_same_not_replaced:
  assumes "search_exact U (data_loader ts) c = m # ms" and "row_term m = c"
    and "identify_and_replace_terms U ts text' thr mwl = Inr r"
  shows "(\<forall>it \<in> set (tr_identified_terms r). it_original it \<noteq> c)
       \<and> (\<forall>rc \<in> set (tr_replacements r). rr_original rc \<noteq> c)"
proof -
  from identify_and_replace_terms_Inr [OF assms(3)]
  consider "tr_identified_terms r = [] \<and> tr_replacements r = []"
    | vs pt where "tr_identified_terms r
              = fst (identification_pass U (data_loader ts) vs thr (extract_terms U text' mwl))"
        "replace_loop U (sorted_terms (tr_identified_terms r)) text' []
              = Inr (pt, tr_replacements r)"
    by blast
  then show ?thesis
  proof cases
    case 1
    then show ?thesis by simp
  next
    case 2
    have ids: "\<forall>it \<in> set (tr_identified_terms r). it_original it \<noteq> c"
      unfolding 2(1) using exact_same_not_identified [OF assms(1,2)] by blast
    from replace_loop_originals [OF 2(2)]
    have "set (map rr_original (tr_replacements r)) \<subseteq> set (map it_original (tr_identified_terms r))"
      by (simp add: set_sorted_terms)
    then have "\<forall>rc \<in> set (tr_replacements r). \<exists>it \<in> set (tr_identified_terms r).
        rr_original rc = it_original it"
      by auto
    with ids have "\<forall>rc \<in> set (tr_replacements r). rr_original rc \<noteq> c"
      by metis
    with ids show ?thesis by simp
  qed
qed

text \<open>
  C10: a candidate \<open>c\<close> for which the exact lookup returns a hit is never a query to the
  vector service, in any pass, and the outcome of the pass does not depend on what the
  vector service would answer for \<open>c\<close>. When the first hit is \<open>c\<close> itself, character for
  character, no identified term and no replacement record has \<open>c\<close> as its original.
\<close>

theorem exact_hit_skips_retrieval:
  assumes "search_exact U (data_loader ts) c = m # ms"
  shows "(\<forall>k. (c, k) \<notin> set (snd (identification_pass U (data_loader ts) vs thr cands)))
    \<and> ((\<forall>q. q \<noteq> c \<longrightarrow> search_similar vs' q 1 = search_similar vs q 1) \<longrightarrow>
         identification_pass U (data_loader ts) vs' thr cands
           = identification_pass U (data_loader ts) vs thr cands)
    \<and> (row_term m = c \<longrightarrow>
         (\<forall>it \<in> set (fst (identification_pass U (data_loader ts) vs thr cands)).
            it_original it \<noteq> c))
    \<and> (row_term m = c \<and> identify_and_replace_terms U ts text' thr mwl = Inr r \<longrightarrow>
         (\<forall>it \<in> set (tr_identified_terms r). it_original it \<noteq> c)
         \<and> (\<forall>rc \<in> set (tr_replacements r). rr_original rc \<noteq> c))"
proof (intro conjI impI allI ballI)
  fix k show "(c, k) \<notin> set (snd (identification_pass U (data_loader ts) vs thr cands))"
    by (rule exact_hit_not_queried [OF assms])
next
  assume "\<forall>q. q \<noteq> c \<longrightarrow> search_similar vs' q 1 = search_similar vs q 1"
  then show "identification_pass U (data_loader ts) vs' thr cands
           = identification_pass U (data_loader ts) vs thr cands"
    by (rule exact_hit_any_service [OF assms])
next
  fix it
  assume "row_term m = c" "it \<in> set (fst (identification_pass U (data_loader ts) vs thr cands))"
  then show "it_original it \<noteq> c"
    by (rule exact_same_not_identified [OF assms])
next
  fix it
  assume "row_term m = c \<and> identify_and_replace_terms U ts text' thr mwl = Inr r"
    and "it \<in> set (tr_identified_terms r)"
  then show "it_original it \<noteq> c"
    using exact_same_not_replaced [OF assms, of text' thr mwl r] by blast
next
  fix rc
  assume "row_term m = c \<and> identify_and_replace_terms U ts text' thr mwl = Inr r"
    and "rc \<in> set (tr_replacements r)"
  then show "rr_original rc \<noteq> c"
    using exact_same_not_replaced [OF assms, of text' thr mwl r] by blast
qed


theorem exact_hit_skips_retrieval_witness:
  "search_exact ascii_rt (data_loader ex_service) (cps ''Risk'')
      = [\<lparr> row_term = cps ''Risk'', row_label = cps ''FINANCE'' \<rparr>]
   \<and> (\<forall>k. (cps ''Risk'', k) \<notin> set (snd (identification_pass ascii_rt (data_loader ex_service)
          ex_vs (6 / 10) [cps ''Risk'', cps ''equity''])))
   \<and> cps ''Risk'' \<notin> it_original ` set (fst (identification_pass ascii_rt
          (data_loader ex_service) ex_vs (6 / 10) [cps ''Risk'', cps ''equity'']))"
proof -
  have h: "search_exact ascii_rt (data_loader ex_service) (cps ''Risk'')
      = \<lparr> row_term = cps ''Risk'', row_label = cps ''FINANCE'' \<rparr> # []"
    by (simp add: ev)
  note t = exact_hit_skips_retrieval
    [OF h, where vs = ex_vs and thr = "6 / 10" and cands = "[cps ''Risk'', cps ''equity'']"]
  from t [THEN conjunct2, THEN conjunct2, THEN conjunct1]
  have "\<forall>it \<in> set (fst (identification_pass ascii_rt (data_loader ex_service) ex_vs (6 / 10)
          [cps ''Risk'', cps ''equity''])). it_original it \<noteq> cps ''Risk''"
    by simp
  then have n: "cps ''Risk'' \<notin> it_original ` set (fst (identification_pass ascii_rt
          (data_loader ex_service) ex_vs (6 / 10) [cps ''Risk'', cps ''equity'']))"
    by (auto simp only: image_iff)
  from t [THEN conjunct1] n h show ?thesis by (intro conjI)
qed

section \<open>Extraction: the loops and the de-duplication\<close>

lemma fold_add_single:
  "fold (add_single U mwl) ws st
     = fold (add_phrase U) (filter (\<lambda>w. mwl \<le> int (length w)) ws) st"
  by (induction ws arbitrary: st) (auto simp: add_single_def add_phrase_def Let_def)

lemma fold_add_phrase:
  "fold (add_phrase U) xs (acc, seen)
     = (acc @ dedup_first (py_lower U) (filter (\<lambda>x. py_lower U x \<notin> seen) xs),
        seen \<union> py_lower U ` set xs)"
proof (induction xs arbitrary: acc seen)
  case Nil
  then show ?case by simp
next
  case (Cons x xs)
  show ?case
  proof (cases "py_lower U x \<in> seen")
    case True
    with Cons [of acc seen] show ?thesis by (auto simp: add_phrase_def)
  next
    case False
    have f: "filter (\<lambda>y. py_lower U y \<notin> insert (py_lower U x) seen) xs
        = filter (\<lambda>y. py_lower U y \<noteq> py_lower U x) (filter (\<lambda>y. py_lower U y \<notin> seen) xs)"
      by (induction xs) auto
    have "dedup_first (py_lower U) (filter (\<lambda>y. py_lower U y \<notin> seen) (x # xs))
        = x # dedup_first (py_lower U)
            (filter (\<lambda>y. py_lower U y \<noteq> py_lower U x) (filter (\<lambda>y. py_lower U y \<notin> seen) xs))"
      using False by (simp del: filter_filter)
    then have d: "dedup_first (py_lower U) (filter (\<lambda>y. py_lower U y \<notin> seen) (x # xs))
        = x # dedup_first (py_lower U)
            (filter (\<lambda>y. py_lower U y \<notin> insert (py_lower U x) seen) xs)"
      by (simp only: f)
    have "fold (add_phrase U) (x # xs) (acc, seen)
        = fold (add_phrase U) xs (acc @ [x], insert (py_lower U x) seen)"
      using False by (simp add: add_phrase_def)
    also have "\<dots> = ((acc @ [x]) @ dedup_first (py_lower U)
           (filter (\<lambda>y. py_lower U y \<notin> insert (py_lower U x) seen) xs),
         insert (py_lower U x) seen \<union> py_lower U ` set xs)"
      by (rule Cons)
    also have "\<dots> = (acc @ dedup_first (py_lower U)
           (filter (\<lambda>y. py_lower U y \<notin> seen) (x # xs)),
         seen \<union> py_lower U ` set (x # xs))"
      by (simp only: d) simp
    finally show ?thesis .
  qed
qed

lemma extract_terms_dedup:
  "extract_terms U text' mwl =
     dedup_first (py_lower U)
       (filter (\<lambda>w. mwl \<le> int (length w)) (findall U single_word_pattern text')
        @ findall U bigram_pattern text'
        @ findall U trigram_pattern text'
        @ findall U chinese_pattern text')"
proof -
  let ?all = "filter (\<lambda>w. mwl \<le> int (length w)) (findall U single_word_pattern text')
        @ findall U bigram_pattern text'
        @ findall U trigram_pattern text'
        @ findall U chinese_pattern text'"
  have "extract_terms U text' mwl = fst (fold (add_phrase U) ?all ([], {}))"
    by (simp add: extract_terms_def Let_def fold_add_single)
  also have "\<dots> = dedup_first (py_lower U) ?all"
    by (simp only: fold_add_phrase) simp
  finally show ?thesis .
qed

lemma dedup_first_subset: "set (dedup_first key xs) \<subseteq> set xs"
  by (induction key xs rule: dedup_first.induct) auto

lemma dedup_first_distinct: "distinct (map key (dedup_first key xs))"
proof (induction key xs rule: dedup_first.induct)
  case (1 key)
  then show ?case by simp
next
  case (2 key x xs)
  have "key x \<notin> key ` set (dedup_first key (filter (\<lambda>y. key y \<noteq> key x) xs))"
    using dedup_first_subset [of key "filter (\<lambda>y. key y \<noteq> key x) xs"] by auto
  with 2 show ?case by simp
qed

lemma dedup_first_keys: "key ` set (dedup_first key xs) = key ` set xs"
proof (induction key xs rule: dedup_first.induct)
  case (1 key)
  then show ?case by simp
next
  case (2 key x xs)
  then show ?case by auto
qed

lemma find_filter_other:
  "key y \<noteq> key x \<Longrightarrow>
   find (\<lambda>z. key z = key y) (filter (\<lambda>z. key z \<noteq> key x) xs) = find (\<lambda>z. key z = key y) xs"
  by (induction xs) auto

lemma dedup_first_is_first:
  "y \<in> set (dedup_first key xs) \<Longrightarrow> find (\<lambda>z. key z = key y) xs = Some y"
proof (induction key xs rule: dedup_first.induct)
  case (1 key)
  then show ?case by simp
next
  case (2 key x xs)
  show ?case
  proof (cases "y = x")
    case True
    then show ?thesis by simp
  next
    case False
    with 2(2) have in': "y \<in> set (dedup_first key (filter (\<lambda>z. key z \<noteq> key x) xs))" by simp
    with dedup_first_subset [of key "filter (\<lambda>z. key z \<noteq> key x) xs"]
    have k: "key y \<noteq> key x" by auto
    have "find (\<lambda>z. key z = key y) (filter (\<lambda>z. key z \<noteq> key x) xs)
        = find (\<lambda>z. key z = key y) xs"
      using k by (rule find_filter_other)
    with 2(1) [OF in'] k show ?thesis by auto
  qed
qed


section \<open>Extraction: the shape of the matches\<close>

lemma re_match_le: "re_match U p prev rest = Some n \<Longrightarrow> n \<le> length rest"
  by (induction U p prev rest arbitrary: n rule: re_match.induct)
     (auto split: if_splits option.splits)

lemma upto_Suc_set: "set [0 ..< Suc n] = {k. k \<le> n}"
  by auto

lemma fits_Star_iff:
  "fits (Star c # p) w \<longleftrightarrow> (\<exists>k \<le> length w. list_all c (take k w) \<and> fits p (drop k w))"
  by (simp only: fits.simps list_ex_iff upto_Suc_set) blast

lemma fits_Rep_iff:
  "fits (Rep c lo hi # p) w \<longleftrightarrow>
     (\<exists>k \<le> length w. lo \<le> k \<and> k \<le> hi \<and> list_all c (take k w) \<and> fits p (drop k w))"
  by (simp only: fits.simps list_ex_iff upto_Suc_set) blast

lemma fits_Star_zero: "fits p w \<Longrightarrow> fits (Star c # p) w"
  unfolding fits_Star_iff by (rule exI [of _ 0]) simp

lemma fits_Star_more: "c x \<Longrightarrow> fits (Star c # p) w \<Longrightarrow> fits (Star c # p) (x # w)"
proof -
  assume cx: "c x" and "fits (Star c # p) w"
  then obtain k where "k \<le> length w" "list_all c (take k w)" "fits p (drop k w)"
    unfolding fits_Star_iff by blast
  with cx show ?thesis
    unfolding fits_Star_iff by (intro exI [of _ "Suc k"]) simp
qed

lemma fits_Rep_zero: "fits p w \<Longrightarrow> fits (Rep c 0 hi # p) w"
  unfolding fits_Rep_iff by (rule exI [of _ 0]) simp

lemma fits_Rep_more:
  "c x \<Longrightarrow> 0 < hi \<Longrightarrow> fits (Rep c (lo - 1) (hi - 1) # p) w \<Longrightarrow> fits (Rep c lo hi # p) (x # w)"
proof -
  assume cx: "c x" and hi: "0 < hi" and "fits (Rep c (lo - 1) (hi - 1) # p) w"
  then obtain k where "k \<le> length w" "lo - 1 \<le> k" "k \<le> hi - 1"
      "list_all c (take k w)" "fits p (drop k w)"
    unfolding fits_Rep_iff by blast
  with cx hi show ?thesis
    unfolding fits_Rep_iff by (intro exI [of _ "Suc k"]) auto
qed

lemmas [simp del] = fits.simps(4) fits.simps(5)

lemma re_match_fits: "re_match U p prev rest = Some n \<Longrightarrow> fits p (take n rest)"
proof (induction U p prev rest arbitrary: n rule: re_match.induct)
  case (1 U prev rest)
  then show ?case by simp
next
  case (2 U p prev rest)
  then show ?case by (simp split: if_splits)
next
  case (3 U c p prev)
  then show ?case by simp
next
  case (4 U c p prev x xs)
  then show ?case by (auto split: if_splits)
next
  case (5 U c p prev)
  then have "fits p (take n [])" by simp
  then show ?case by (simp add: fits_Star_zero)
next
  case (6 U c p prev x xs)
  show ?case
  proof (cases "c x")
    case False
    with 6 have "fits p (take n (x # xs))" by simp
    then show ?thesis by (rule fits_Star_zero)
  next
    case True
    show ?thesis
    proof (cases "re_match U (Star c # p) (Some x) xs")
      case None
      with True 6 have "fits p (take n (x # xs))" by simp
      then show ?thesis by (rule fits_Star_zero)
    next
      case (Some k)
      with True "6.prems" have n: "n = Suc k" by simp
      from "6.IH"(1) [OF True Some] have "fits (Star c # p) (take k xs)" .
      with True have "fits (Star c # p) (x # take k xs)" by (rule fits_Star_more)
      with n show ?thesis by simp
    qed
  qed
next
  case (7 U c lo hi p prev)
  then have "lo = 0" "fits p (take n [])" by (simp_all split: if_splits)
  then show ?case by (simp add: fits_Rep_zero)
next
  case (8 U c lo hi p prev x xs)
  show ?case
  proof (cases "0 < hi \<and> c x")
    case False
    with "8.prems" have lo: "lo = 0" and m: "re_match U p prev (x # xs) = Some n"
      by (auto split: if_splits)
    from "8.IH"(3) [OF False lo m] have "fits p (take n (x # xs))" .
    then show ?thesis unfolding lo by (rule fits_Rep_zero)
  next
    case True
    show ?thesis
    proof (cases "re_match U (Rep c (lo - 1) (hi - 1) # p) (Some x) xs")
      case None
      with True "8.prems" have lo: "lo = 0" and m: "re_match U p prev (x # xs) = Some n"
        by (auto split: if_splits)
      from "8.IH"(2) [OF True None lo m] have "fits p (take n (x # xs))" .
      then show ?thesis unfolding lo by (rule fits_Rep_zero)
    next
      case (Some k)
      with True "8.prems" have n: "n = Suc k" by simp
      from "8.IH"(1) [OF True Some] have "fits (Rep c (lo - 1) (hi - 1) # p) (take k xs)" .
      with True have "fits (Rep c lo hi # p) (x # take k xs)"
        by (intro fits_Rep_more) simp_all
      with n show ?thesis by simp
    qed
  qed
qed

lemma findall_from_fits: "w \<in> set (findall_from U p prev rest sk) \<Longrightarrow> fits p w"
proof (induction rest arbitrary: prev sk)
  case Nil
  show ?case
  proof (cases "re_match U p prev []")
    case None
    with Nil show ?thesis by (cases "sk = 0") simp_all
  next
    case (Some n)
    with Nil have "w = []" by (cases "sk = 0") simp_all
    with re_match_fits [OF Some] show ?thesis by simp
  qed
next
  case (Cons x xs)
  show ?case
  proof (cases "0 < sk")
    case True
    with Cons show ?thesis by auto
  next
    case False
    show ?thesis
    proof (cases "re_match U p prev (x # xs)")
      case None
      with False Cons show ?thesis by auto
    next
      case (Some n)
      with False Cons.prems
      have "w = take n (x # xs) \<or> w \<in> set (findall_from U p (Some x) xs (n - 1))"
        by auto
      with re_match_fits [OF Some] Cons.IH show ?thesis by blast
    qed
  qed
qed

lemma findall_fits: "w \<in> set (findall U p text') \<Longrightarrow> fits p w"
  unfolding findall_def by (rule findall_from_fits)

lemma fits_append:
  "fits (p @ q) w \<Longrightarrow> \<exists>a b. w = a @ b \<and> fits p a \<and> fits q b"
proof (induction p w rule: fits.induct)
  case (1 w)
  then show ?case by simp
next
  case (2 p w)
  then show ?case by simp
next
  case (3 c p w)
  then obtain x xs where w: "w = x # xs" "c x" "fits (p @ q) xs"
    by (auto split: list.splits)
  from 3(1) [OF w(1) w(3)] obtain a b where "xs = a @ b" "fits p a" "fits q b" by blast
  with w show ?case by (intro exI [of _ "x # a"] exI [of _ b]) simp
next
  case (4 c p w)
  then obtain k where k: "k \<le> length w" "list_all c (take k w)" "fits (p @ q) (drop k w)"
    unfolding append_Cons fits_Star_iff by blast
  have "k \<in> set [0 ..< Suc (length w)]" unfolding upto_Suc_set using k(1) by simp
  from 4(1) [OF this k(3)] obtain a b where ab: "drop k w = a @ b" "fits p a" "fits q b"
    by blast
  have "fits (Star c # p) (take k w @ a)"
    unfolding fits_Star_iff using k ab by (intro exI [of _ k]) simp
  moreover have "w = (take k w @ a) @ b" using ab(1) by (metis append.assoc append_take_drop_id)
  ultimately show ?case using ab(3) by blast
next
  case (5 c lo hi p w)
  then obtain k where k: "k \<le> length w" "lo \<le> k" "k \<le> hi" "list_all c (take k w)"
      "fits (p @ q) (drop k w)"
    unfolding append_Cons fits_Rep_iff by blast
  have "k \<in> set [0 ..< Suc (length w)]" unfolding upto_Suc_set using k(1) by simp
  from 5(1) [OF this k(5)] obtain a b where ab: "drop k w = a @ b" "fits p a" "fits q b"
    by blast
  have "fits (Rep c lo hi # p) (take k w @ a)"
    unfolding fits_Rep_iff using k ab by (intro exI [of _ k]) simp
  moreover have "w = (take k w @ a) @ b" using ab(1) by (metis append.assoc append_take_drop_id)
  ultimately show ?case using ab(3) by blast
qed

lemma fits_Star_only: "fits [Star c] w \<Longrightarrow> list_all c w"
  unfolding fits_Star_iff by auto

lemma fits_Star_Bnd: "fits [Star c, Bnd] w \<Longrightarrow> list_all c w"
  unfolding fits_Star_iff by auto

lemma fits_word_items: "fits word_items a \<Longrightarrow> is_token a"
  by (cases a) (auto simp: word_items_def is_token_def dest: fits_Star_only)

lemma fits_word_items_Bnd: "fits (word_items @ [Bnd]) a \<Longrightarrow> is_token a"
  by (cases a) (auto simp: word_items_def is_token_def dest: fits_Star_Bnd)

lemma fits_spaces_items: "fits spaces_items s \<Longrightarrow> is_spaces s"
  by (cases s) (auto simp: spaces_items_def is_spaces_def dest: fits_Star_only)

lemma single_word_shape: "fits single_word_pattern w \<Longrightarrow> is_token w"
  by (simp add: single_word_pattern_def fits_word_items_Bnd)

lemma bigram_shape:
  assumes "fits bigram_pattern w"
  shows "\<exists>a s b. w = a @ s @ b \<and> is_token a \<and> is_spaces s \<and> is_token b"
proof -
  from assms have "fits (word_items @ (spaces_items @ (word_items @ [Bnd]))) w"
    by (simp add: bigram_pattern_def)
  from fits_append [OF this] obtain a r where
    a: "w = a @ r" "fits word_items a" "fits (spaces_items @ (word_items @ [Bnd])) r" by blast
  from fits_append [OF a(3)] obtain s b where
    s: "r = s @ b" "fits spaces_items s" "fits (word_items @ [Bnd]) b" by blast
  from a s show ?thesis
    using fits_word_items fits_spaces_items fits_word_items_Bnd by blast
qed

lemma trigram_shape:
  assumes "fits trigram_pattern w"
  shows "\<exists>a s b s' c. w = a @ s @ b @ s' @ c
     \<and> is_token a \<and> is_spaces s \<and> is_token b \<and> is_spaces s' \<and> is_token c"
proof -
  from assms
  have "fits (word_items @ (spaces_items @ (word_items @ (spaces_items @ (word_items @ [Bnd]))))) w"
    by (simp add: trigram_pattern_def)
  from fits_append [OF this] obtain a r where
    a: "w = a @ r" "fits word_items a"
       "fits (spaces_items @ (word_items @ (spaces_items @ (word_items @ [Bnd])))) r" by blast
  from fits_append [OF a(3)] obtain s r' where
    s: "r = s @ r'" "fits spaces_items s"
       "fits (word_items @ (spaces_items @ (word_items @ [Bnd]))) r'" by blast
  from fits_append [OF s(3)] obtain b r'' where
    b: "r' = b @ r''" "fits word_items b" "fits (spaces_items @ (word_items @ [Bnd])) r''"
    by blast
  from fits_append [OF b(3)] obtain s' c where
    c: "r'' = s' @ c" "fits spaces_items s'" "fits (word_items @ [Bnd]) c" by blast
  from a s b c show ?thesis
    using fits_word_items fits_spaces_items fits_word_items_Bnd by blast
qed

lemma chinese_shape:
  "fits chinese_pattern w \<Longrightarrow> 2 \<le> length w \<and> length w \<le> 6 \<and> list_all cjk w"
  unfolding chinese_pattern_def fits_Rep_iff by auto

lemmas ev_re = findall_def single_word_pattern_def bigram_pattern_def trigram_pattern_def
  chinese_pattern_def word_items_def spaces_items_def cps_def at_boundary_def is_word_def
  is_ascii_def latin_start_def latin_cont_def py_space_def cjk_def
  ascii_upper_def ascii_lower_letter_def ascii_digit_def

lemma risk_single: "findall U single_word_pattern (cps ''Risk Risk'') = [cps ''Risk'', cps ''Risk'']"
  by (simp add: ev_re)

lemma risk_bigram: "findall U bigram_pattern (cps ''Risk Risk'') = [cps ''Risk Risk'']"
  by (simp add: ev_re)

lemma risk_trigram: "findall U trigram_pattern (cps ''Risk Risk'') = []"
  by (simp add: ev_re)

lemma risk_chinese: "findall U chinese_pattern (cps ''Risk Risk'') = []"
  by (simp add: ev_re)

lemma risk_extract:
  "mwl \<le> 4 \<Longrightarrow> extract_terms U (cps ''Risk Risk'') mwl = [cps ''Risk'', cps ''Risk Risk'']"
  by (simp add: extract_terms_def risk_single risk_bigram risk_trigram risk_chinese)
     (simp add: add_single_def add_phrase_def Let_def cps_def py_lower_def is_ascii_def
        ascii_tolower_def ascii_upper_def)

lemma risk_keys:
  "filter (\<lambda>c. py_lower U c = cps ''risk'') [cps ''Risk'', cps ''Risk Risk''] = [cps ''Risk'']"
  by (simp add: cps_def py_lower_def is_ascii_def ascii_tolower_def ascii_upper_def)

section \<open>Replacement: counting and substituting\<close>

text \<open>
  \<^verbatim>\<open>re.findall\<close> and \<^verbatim>\<open>re.sub\<close> scan the text in the same way, so the length of the list
  of matches is the number of substitutions; without a match the text is unchanged.
\<close>

lemma subn_count:
  "snd (subn_from U p repl prev rest sk) = length (findall_from U p prev rest sk)"
  by (induction rest arbitrary: prev sk) (auto simp: split_beta split: option.splits)

lemma subn_no_match:
  "findall_from U p prev rest sk = [] \<Longrightarrow> fst (subn_from U p repl prev rest sk) = drop sk rest"
proof (induction rest arbitrary: prev sk)
  case Nil
  then show ?case by (cases "sk = 0") (auto split: option.splits)
next
  case (Cons x xs)
  show ?case
  proof (cases "0 < sk")
    case True
    with Cons.prems have "findall_from U p (Some x) xs (sk - 1) = []" by simp
    from Cons.IH [OF this] True show ?thesis by (cases sk) auto
  next
    case False
    with Cons.prems have n: "re_match U p prev (x # xs) = None"
      and r: "findall_from U p (Some x) xs 0 = []"
      by (auto split: option.splits)
    from Cons.IH [OF r] n False show ?thesis by (auto split: prod.splits)
  qed
qed

lemma literal_match:
  "re_match U (map (\<lambda>x. One (ci_eq U x)) original @ [Bnd]) prev rest =
     (if length original \<le> length rest
         \<and> list_all2 (ci_eq U) original (take (length original) rest)
         \<and> at_boundary U (if original = [] then prev else Some (rest ! (length original - 1)))
              (drop (length original) rest)
      then Some (length original) else None)"
proof (induction original arbitrary: prev rest)
  case Nil
  then show ?case by simp
next
  case (Cons a as)
  show ?case
  proof (cases rest)
    case Nil
    then show ?thesis by simp
  next
    case (Cons x xs)
    have nth: "(x # xs) ! length as = (if as = [] then x else xs ! (length as - 1))"
      by (cases as) auto
    show ?thesis
      unfolding Cons using Cons.IH [of "Some x" xs] nth
      by (auto simp: nth_Cons')
  qed
qed

lemma whole_word_match:
  "re_match U (whole_word_pattern U original) prev rest =
     (if occurs_at U original prev rest then Some (length original) else None)"
  by (simp add: whole_word_pattern_def occurs_at_def literal_match)

lemma sorted_terms_descending:
  "sorted_wrt (\<lambda>a b. length (it_original b) \<le> length (it_original a)) (sorted_terms xs)"
proof -
  have "sorted (map (\<lambda>x. - int (length (it_original x))) (sorted_terms xs))"
    unfolding sorted_terms_def by (rule sorted_sort_key)
  then show ?thesis by (simp add: sorted_wrt_map)
qed

lemma sorted_terms_stable:
  "filter (\<lambda>x. length (it_original x) = n) (sorted_terms xs)
     = filter (\<lambda>x. length (it_original x) = n) xs"
proof -
  have e: "(\<lambda>x. length (it_original x) = n)
      = (\<lambda>x. - int (length (it_original x)) = - int n)"
    by auto
  show ?thesis
    unfolding e sorted_terms_def by (rule sort_key_stable)
qed

lemma replace_described_positive:
  "rc \<in> set (snd (replace_described U items tx)) \<Longrightarrow> 0 < rr_count rc"
  by (induction items arbitrary: tx)
     (auto simp: mk_record_def split_beta Let_def split: if_splits)

lemma expand_template_plain: "92 \<notin> set repl \<Longrightarrow> expand_template U repl = Inr repl"
  by (simp add: expand_template_def)

text \<open>
  When no standard term holds a backslash, the loop of the code returns, and it returns
  the text and the records of the described pass.
\<close>

lemma replace_loop_described:
  assumes "list_all (\<lambda>it. 92 \<notin> set (it_standard it)) items"
  shows "replace_loop U items tx recs =
     Inr (fst (replace_described U items tx), recs @ snd (replace_described U items tx))"
  using assms
proof (induction items arbitrary: tx recs)
  case Nil
  then show ?case by simp
next
  case (Cons item items)
  let ?p = "whole_word_pattern U (it_original item)"
  let ?n = "length (findall U ?p tx)"
  let ?s = "substitute_all U (it_original item) (it_standard item) tx"
  from Cons.prems have plain: "92 \<notin> set (it_standard item)"
    and rest: "list_all (\<lambda>it. 92 \<notin> set (it_standard it)) items"
    by simp_all
  have cnt: "snd ?s = ?n"
    by (simp add: substitute_all_def subn_count findall_def)
  have sub: "re_sub U ?p (it_standard item) tx = Inr (fst ?s)"
    by (simp add: re_sub_def expand_template_plain [OF plain] substitute_all_def)
  show ?case
  proof (cases "0 < ?n")
    case False
    then have none: "findall_from U ?p None tx 0 = []" by (simp add: findall_def)
    have same: "fst ?s = tx"
      using subn_no_match [OF none] by (simp add: substitute_all_def)
    from False have "replace_loop U (item # items) tx recs = replace_loop U items tx recs"
      by (simp add: Let_def)
    also have "\<dots> = Inr (fst (replace_described U items tx),
        recs @ snd (replace_described U items tx))"
      by (rule Cons.IH [OF rest])
    finally show ?thesis using False cnt same by (simp add: split_beta Let_def)
  next
    case True
    then have "replace_loop U (item # items) tx recs
        = replace_loop U items (fst ?s) (recs @ [mk_record item ?n])"
      by (simp add: Let_def sub)
    also have "\<dots> = Inr (fst (replace_described U items (fst ?s)),
        (recs @ [mk_record item ?n]) @ snd (replace_described U items (fst ?s)))"
      by (rule Cons.IH [OF rest])
    finally show ?thesis using True cnt by (simp add: split_beta Let_def)
  qed
qed

text \<open>
  The replacement pass for standard terms without a backslash: the call returns a
  result; its identified terms are the whole list of the identification pass; the pass
  takes them sorted by descending length of the original, terms of equal length in their
  order of identification; the processed text and the records are those of the described
  pass; every record has a positive count; \<^verbatim>\<open>total_replacements\<close> is the sum of the
  counts.
\<close>

lemma replacement_pass_plain_standards:
  assumes "text' \<noteq> []" and "usable_service ts = Some vs"
    and "list_all (\<lambda>it. 92 \<notin> set (it_standard it))
           (fst (identification_pass U (data_loader ts) vs thr (extract_terms U text' mwl)))"
  shows "\<exists>r. identify_and_replace_terms U ts text' thr mwl = Inr r
    \<and> tr_identified_terms r
         = fst (identification_pass U (data_loader ts) vs thr (extract_terms U text' mwl))
    \<and> sorted_wrt (\<lambda>a b. length (it_original b) \<le> length (it_original a))
         (sorted_terms (tr_identified_terms r))
    \<and> (\<forall>n. filter (\<lambda>x. length (it_original x) = n) (sorted_terms (tr_identified_terms r))
            = filter (\<lambda>x. length (it_original x) = n) (tr_identified_terms r))
    \<and> (tr_processed_text r, tr_replacements r)
         = replace_described U (sorted_terms (tr_identified_terms r)) text'
    \<and> (\<forall>rc \<in> set (tr_replacements r). 0 < rr_count rc)
    \<and> tr_total_replacements r = Some (sum_list (map rr_count (tr_replacements r)))"
proof -
  let ?ids = "fst (identification_pass U (data_loader ts) vs thr (extract_terms U text' mwl))"
  let ?d = "replace_described U (sorted_terms ?ids) text'"
  let ?r = "\<lparr> tr_original_text = text', tr_processed_text = fst ?d,
              tr_identified_terms = ?ids, tr_replacements = snd ?d,
              tr_total_replacements = Some (sum_list (map rr_count (snd ?d))),
              tr_message = Msg_done (length ?ids) (sum_list (map rr_count (snd ?d))) \<rparr>"
  from assms(1,2) have g: "(if text' = [] then None else usable_service ts) = Some vs" by simp
  from assms(3) have "list_all (\<lambda>it. 92 \<notin> set (it_standard it)) (sorted_terms ?ids)"
    by (simp add: list_all_iff set_sorted_terms)
  then have loop: "replace_loop U (sorted_terms ?ids) text' [] = Inr (fst ?d, snd ?d)"
    using replace_loop_described [of "sorted_terms ?ids" U text' "[]"] by simp
  have res: "identify_and_replace_terms U ts text' thr mwl = Inr ?r"
    by (simp add: identify_and_replace_terms_def g Let_def loop split_beta)
  have pos: "\<forall>rc \<in> set (snd ?d). 0 < rr_count rc"
    using replace_described_positive by blast
  have "identify_and_replace_terms U ts text' thr mwl = Inr ?r
    \<and> tr_identified_terms ?r = ?ids
    \<and> sorted_wrt (\<lambda>a b. length (it_original b) \<le> length (it_original a))
         (sorted_terms (tr_identified_terms ?r))
    \<and> (\<forall>n. filter (\<lambda>x. length (it_original x) = n) (sorted_terms (tr_identified_terms ?r))
            = filter (\<lambda>x. length (it_original x) = n) (tr_identified_terms ?r))
    \<and> (tr_processed_text ?r, tr_replacements ?r)
         = replace_described U (sorted_terms (tr_identified_terms ?r)) text'
    \<and> (\<forall>rc \<in> set (tr_replacements ?r). 0 < rr_count rc)
    \<and> tr_total_replacements ?r = Some (sum_list (map rr_count (tr_replacements ?r)))"
    using res pos sorted_terms_descending [of ?ids] sorted_terms_stable [of _ ?ids]
    by simp
  then show ?thesis by (rule exI [of _ ?r])
qed

section \<open>Evaluation on concrete texts\<close>

lemmas ev_rt = ev_re ascii_rt_def mixed_text_def

lemma mixed_single:
  "findall ascii_rt single_word_pattern mixed_text = [cps ''ab'', cps ''cd'', cps ''ef'']"
  by (simp add: ev_rt)

lemma mixed_bigram: "findall ascii_rt bigram_pattern mixed_text = [cps ''ab cd'']"
  by (simp add: ev_rt)

lemma mixed_trigram: "findall ascii_rt trigram_pattern mixed_text = [cps ''ab cd ef'']"
  by (simp add: ev_rt)

lemma mixed_chinese: "findall ascii_rt chinese_pattern mixed_text = [[20013, 25991]]"
  by (simp add: ev_rt)

lemma mixed_extract:
  "extract_terms ascii_rt mixed_text 2
     = [cps ''ab'', cps ''cd'', cps ''ef'', cps ''ab cd'', cps ''ab cd ef'', [20013, 25991]]"
  by (simp add: extract_terms_def mixed_single mixed_bigram mixed_trigram mixed_chinese)
     (simp add: add_single_def add_phrase_def Let_def cps_def py_lower_def is_ascii_def
        ascii_tolower_def ascii_upper_def ascii_rt_def)

lemma credit_extract:
  "extract_terms ascii_rt (cps ''credit risk'') 2
     = [cps ''credit'', cps ''risk'', cps ''credit risk'']"
  by (simp add: extract_terms_def ev_rt)
     (simp add: add_single_def add_phrase_def Let_def cps_def py_lower_def is_ascii_def
        ascii_tolower_def ascii_upper_def ascii_rt_def)

lemma credit_identified:
  "fst (identification_pass ascii_rt ex_terms ex_vs (8 / 10)
          [cps ''credit'', cps ''risk'', cps ''credit risk''])
     = [\<lparr> it_original = cps ''risk'', it_standard = cps ''Risk'',
          it_similarity = 1, it_match_type = Exact \<rparr>,
        \<lparr> it_original = cps ''credit risk'', it_standard = cps ''Credit Risk'',
          it_similarity = 1, it_match_type = Exact \<rparr>]"
  by (simp add: ev_pass ev)

lemma credit_sorted:
  "sorted_terms
     [\<lparr> it_original = cps ''risk'', it_standard = cps ''Risk'',
          it_similarity = 1, it_match_type = Exact \<rparr>,
      \<lparr> it_original = cps ''credit risk'', it_standard = cps ''Credit Risk'',
          it_similarity = 1, it_match_type = Exact \<rparr>]
   = [\<lparr> it_original = cps ''credit risk'', it_standard = cps ''Credit Risk'',
          it_similarity = 1, it_match_type = Exact \<rparr>,
      \<lparr> it_original = cps ''risk'', it_standard = cps ''Risk'',
          it_similarity = 1, it_match_type = Exact \<rparr>]"
  by (simp add: sorted_terms_def cps_def)

lemmas ev_sub = findall_def whole_word_pattern_def ci_eq_def re_sub_def expand_template_def
  mk_record_def cps_def at_boundary_def is_word_def is_ascii_def ascii_tolower_def
  ascii_upper_def ascii_lower_letter_def ascii_digit_def ascii_rt_def Let_def

lemma credit_replaced:
  "replace_loop ascii_rt
     [\<lparr> it_original = cps ''credit risk'', it_standard = cps ''Credit Risk'',
          it_similarity = 1, it_match_type = Exact \<rparr>,
      \<lparr> it_original = cps ''risk'', it_standard = cps ''Risk'',
          it_similarity = 1, it_match_type = Exact \<rparr>]
     (cps ''credit risk'') []
   = Inr (cps ''Credit Risk'',
       [\<lparr> rr_original = cps ''credit risk'', rr_standard = cps ''Credit Risk'', rr_count = 1,
           rr_similarity = 1, rr_match_type = Exact \<rparr>,
        \<lparr> rr_original = cps ''risk'', rr_standard = cps ''Risk'', rr_count = 1,
           rr_similarity = 1, rr_match_type = Exact \<rparr>])"
  by (simp add: ev_sub)

lemma credit_result:
  "identify_and_replace_terms ascii_rt ex_service (cps ''credit risk'') (8 / 10) 2
   = Inr \<lparr> tr_original_text = cps ''credit risk'', tr_processed_text = cps ''Credit Risk'',
       tr_identified_terms =
         [\<lparr> it_original = cps ''risk'', it_standard = cps ''Risk'',
            it_similarity = 1, it_match_type = Exact \<rparr>,
          \<lparr> it_original = cps ''credit risk'', it_standard = cps ''Credit Risk'',
            it_similarity = 1, it_match_type = Exact \<rparr>],
       tr_replacements =
         [\<lparr> rr_original = cps ''credit risk'', rr_standard = cps ''Credit Risk'', rr_count = 1,
            rr_similarity = 1, rr_match_type = Exact \<rparr>,
          \<lparr> rr_original = cps ''risk'', rr_standard = cps ''Risk'', rr_count = 1,
            rr_similarity = 1, rr_match_type = Exact \<rparr>],
       tr_total_replacements = Some 2, tr_message = Msg_done 2 2 \<rparr>"
proof -
  have n: "cps ''credit risk'' \<noteq> []" by (simp add: cps_def)
  have u: "usable_service ex_service = Some ex_vs"
    by (simp add: usable_service_def ex_service_def ex_vs_def)
  have d: "data_loader ex_service = ex_terms" by (simp add: ex_service_def)
  show ?thesis
    unfolding identify_and_replace_terms_def
    by (simp only: n u d if_False option.case Let_def credit_extract credit_identified
          credit_sorted credit_replaced sum.case prod.case)
       simp
qed

section \<open>Extraction: the candidate list\<close>

text \<open>
  C4: the potential terms are the matches of the four strategies in their order (single
  words of at least \<open>min_word_length\<close> characters, two-word phrases, three-word phrases,
  CJK runs), de-duplicated by lowercase key with the first occurrence kept and the order
  of insertion unchanged: no two candidates share a key, and each candidate is the first
  element with its key in the concatenation of the four match lists. A single word is a
  token; a two-word and a three-word phrase are tokens separated by white space; a CJK run
  has 2 to 6 characters of the block U+4E00 to U+9FFF. For the text \<open>Risk Risk\<close> and a
  minimum word length of at most 4 (the default is 2) the candidates are \<open>Risk\<close> and
  \<open>Risk Risk\<close>, so exactly one has the key \<open>risk\<close>.
\<close>

theorem extraction_dedup_ordered:
  "extract_terms U text' mwl =
     dedup_first (py_lower U)
       (filter (\<lambda>w. mwl \<le> int (length w)) (findall U single_word_pattern text')
        @ findall U bigram_pattern text'
        @ findall U trigram_pattern text'
        @ findall U chinese_pattern text')
   \<and> distinct (map (py_lower U) (extract_terms U text' mwl))
   \<and> (\<forall>y \<in> set (extract_terms U text' mwl).
         find (\<lambda>z. py_lower U z = py_lower U y)
           (filter (\<lambda>w. mwl \<le> int (length w)) (findall U single_word_pattern text')
            @ findall U bigram_pattern text'
            @ findall U trigram_pattern text'
            @ findall U chinese_pattern text') = Some y)
   \<and> (\<forall>w \<in> set (findall U single_word_pattern text'). is_token w)
   \<and> (\<forall>w \<in> set (findall U bigram_pattern text').
         \<exists>a s b. w = a @ s @ b \<and> is_token a \<and> is_spaces s \<and> is_token b)
   \<and> (\<forall>w \<in> set (findall U trigram_pattern text').
         \<exists>a s b s' c. w = a @ s @ b @ s' @ c
           \<and> is_token a \<and> is_spaces s \<and> is_token b \<and> is_spaces s' \<and> is_token c)
   \<and> (\<forall>w \<in> set (findall U chinese_pattern text').
         2 \<le> length w \<and> length w \<le> 6 \<and> list_all cjk w)
   \<and> (mwl' \<le> 4 \<longrightarrow>
         extract_terms U (cps ''Risk Risk'') mwl' = [cps ''Risk'', cps ''Risk Risk'']
         \<and> filter (\<lambda>c. py_lower U c = cps ''risk'') (extract_terms U (cps ''Risk Risk'') mwl')
             = [cps ''Risk''])"
proof (intro conjI ballI impI)
  show "extract_terms U text' mwl =
     dedup_first (py_lower U)
       (filter (\<lambda>w. mwl \<le> int (length w)) (findall U single_word_pattern text')
        @ findall U bigram_pattern text'
        @ findall U trigram_pattern text'
        @ findall U chinese_pattern text')"
    by (rule extract_terms_dedup)
next
  show "distinct (map (py_lower U) (extract_terms U text' mwl))"
    unfolding extract_terms_dedup by (rule dedup_first_distinct)
next
  fix y assume "y \<in> set (extract_terms U text' mwl)"
  then show "find (\<lambda>z. py_lower U z = py_lower U y)
           (filter (\<lambda>w. mwl \<le> int (length w)) (findall U single_word_pattern text')
            @ findall U bigram_pattern text'
            @ findall U trigram_pattern text'
            @ findall U chinese_pattern text') = Some y"
    unfolding extract_terms_dedup by (rule dedup_first_is_first)
next
  fix w assume "w \<in> set (findall U single_word_pattern text')"
  then show "is_token w" by (intro single_word_shape findall_fits)
next
  fix w assume "w \<in> set (findall U bigram_pattern text')"
  then show "\<exists>a s b. w = a @ s @ b \<and> is_token a \<and> is_spaces s \<and> is_token b"
    by (intro bigram_shape findall_fits)
next
  fix w assume "w \<in> set (findall U trigram_pattern text')"
  then show "\<exists>a s b s' c. w = a @ s @ b @ s' @ c
           \<and> is_token a \<and> is_spaces s \<and> is_token b \<and> is_spaces s' \<and> is_token c"
    by (intro trigram_shape findall_fits)
next
  fix w assume "w \<in> set (findall U chinese_pattern text')"
  then have "fits chinese_pattern w" by (rule findall_fits)
  then show "2 \<le> length w" "length w \<le> 6" "list_all cjk w"
    using chinese_shape by blast+
next
  assume m: "mwl' \<le> 4"
  then show "extract_terms U (cps ''Risk Risk'') mwl' = [cps ''Risk'', cps ''Risk Risk'']"
    by (rule risk_extract)
  then show "filter (\<lambda>c. py_lower U c = cps ''risk'') (extract_terms U (cps ''Risk Risk'') mwl')
             = [cps ''Risk'']"
    by (simp only: risk_keys)
qed

theorem extraction_dedup_ordered_witness:
  "cps ''ab'' \<in> set (findall ascii_rt single_word_pattern mixed_text)
   \<and> is_token (cps ''ab'')
   \<and> cps ''ab cd'' \<in> set (findall ascii_rt bigram_pattern mixed_text)
   \<and> (\<exists>a s b. cps ''ab cd'' = a @ s @ b \<and> is_token a \<and> is_spaces s \<and> is_token b)
   \<and> cps ''ab cd ef'' \<in> set (findall ascii_rt trigram_pattern mixed_text)
   \<and> (\<exists>a s b s' c. cps ''ab cd ef'' = a @ s @ b @ s' @ c
           \<and> is_token a \<and> is_spaces s \<and> is_token b \<and> is_spaces s' \<and> is_token c)
   \<and> [20013, 25991] \<in> set (findall ascii_rt chinese_pattern mixed_text)
   \<and> list_all cjk [20013, 25991]
   \<and> extract_terms ascii_rt mixed_text 2
       = [cps ''ab'', cps ''cd'', cps ''ef'', cps ''ab cd'', cps ''ab cd ef'', [20013, 25991]]
   \<and> distinct (map (py_lower ascii_rt) (extract_terms ascii_rt mixed_text 2))
   \<and> (2 :: int) \<le> 4
   \<and> extract_terms ascii_rt (cps ''Risk Risk'') 2 = [cps ''Risk'', cps ''Risk Risk'']
   \<and> filter (\<lambda>c. py_lower ascii_rt c = cps ''risk'')
        (extract_terms ascii_rt (cps ''Risk Risk'') 2) = [cps ''Risk'']"
proof -
  note t = extraction_dedup_ordered [of ascii_rt mixed_text 2 2]
  have m1: "cps ''ab'' \<in> set (findall ascii_rt single_word_pattern mixed_text)"
    by (simp add: mixed_single)
  have m2: "cps ''ab cd'' \<in> set (findall ascii_rt bigram_pattern mixed_text)"
    by (simp add: mixed_bigram)
  have m3: "cps ''ab cd ef'' \<in> set (findall ascii_rt trigram_pattern mixed_text)"
    by (simp add: mixed_trigram)
  have m4: "[20013, 25991] \<in> set (findall ascii_rt chinese_pattern mixed_text)"
    by (simp add: mixed_chinese)
  have le: "(2 :: int) \<le> 4" by simp
  from t have c2: "distinct (map (py_lower ascii_rt) (extract_terms ascii_rt mixed_text 2))"
    by blast
  from t m1 have s1: "is_token (cps ''ab'')" by blast
  from t m2
  have s2: "\<exists>a s b. cps ''ab cd'' = a @ s @ b \<and> is_token a \<and> is_spaces s \<and> is_token b"
    by blast
  from t m3
  have s3: "\<exists>a s b s' c. cps ''ab cd ef'' = a @ s @ b @ s' @ c
           \<and> is_token a \<and> is_spaces s \<and> is_token b \<and> is_spaces s' \<and> is_token c"
    by blast
  from t m4 have s4: "list_all cjk [20013, 25991]" by blast
  from t le
  have r: "extract_terms ascii_rt (cps ''Risk Risk'') 2 = [cps ''Risk'', cps ''Risk Risk'']"
    "filter (\<lambda>c. py_lower ascii_rt c = cps ''risk'')
        (extract_terms ascii_rt (cps ''Risk Risk'') 2) = [cps ''Risk'']"
    by blast+
  from m1 m2 m3 m4 s1 s2 s3 s4 c2 le r mixed_extract show ?thesis by blast
qed

section \<open>Replacement: standard terms with a backslash\<close>

lemma esc_extract:
  "extract_terms ascii_rt (cps ''ab cd'') 2 = [cps ''ab'', cps ''cd'', cps ''ab cd'']"
  by (simp add: extract_terms_def ev_rt)
     (simp add: add_single_def add_phrase_def Let_def cps_def py_lower_def is_ascii_def
        ascii_tolower_def ascii_upper_def ascii_rt_def)

lemma esc_sorted:
  "sorted_terms
     [\<lparr> it_original = cps ''ab'', it_standard = standard,
          it_similarity = 9 / 10, it_match_type = Semantic \<rparr>,
      \<lparr> it_original = cps ''cd'', it_standard = standard,
          it_similarity = 9 / 10, it_match_type = Semantic \<rparr>,
      \<lparr> it_original = cps ''ab cd'', it_standard = standard,
          it_similarity = 9 / 10, it_match_type = Semantic \<rparr>]
   = [\<lparr> it_original = cps ''ab cd'', it_standard = standard,
          it_similarity = 9 / 10, it_match_type = Semantic \<rparr>,
      \<lparr> it_original = cps ''ab'', it_standard = standard,
          it_similarity = 9 / 10, it_match_type = Semantic \<rparr>,
      \<lparr> it_original = cps ''cd'', it_standard = standard,
          it_similarity = 9 / 10, it_match_type = Semantic \<rparr>]"
  by (simp add: sorted_terms_def cps_def)

lemma esc_raises:
  "replace_loop ascii_rt
     [\<lparr> it_original = cps ''ab cd'', it_standard = [82, 92, 68],
          it_similarity = 9 / 10, it_match_type = Semantic \<rparr>,
      \<lparr> it_original = cps ''ab'', it_standard = [82, 92, 68],
          it_similarity = 9 / 10, it_match_type = Semantic \<rparr>,
      \<lparr> it_original = cps ''cd'', it_standard = [82, 92, 68],
          it_similarity = 9 / 10, it_match_type = Semantic \<rparr>]
     (cps ''ab cd'') [] = Inl ReError"
  by (simp add: ev_sub escape_code_def)

lemma esc_newline:
  "replace_loop ascii_rt
     [\<lparr> it_original = cps ''ab cd'', it_standard = [65, 92, 110, 66],
          it_similarity = 9 / 10, it_match_type = Semantic \<rparr>,
      \<lparr> it_original = cps ''ab'', it_standard = [65, 92, 110, 66],
          it_similarity = 9 / 10, it_match_type = Semantic \<rparr>,
      \<lparr> it_original = cps ''cd'', it_standard = [65, 92, 110, 66],
          it_similarity = 9 / 10, it_match_type = Semantic \<rparr>]
     (cps ''ab cd'') []
   = Inr ([65, 10, 66],
       [\<lparr> rr_original = cps ''ab cd'', rr_standard = [65, 92, 110, 66], rr_count = 1,
           rr_similarity = 9 / 10, rr_match_type = Semantic \<rparr>])"
  by (simp add: ev_sub escape_code_def)

text \<open>
  C3: every identified term is to be substituted at its whole-word occurrences, with a
  record for a positive count and the sum of the counts as total. The pattern is built
  with \<^verbatim>\<open>re.escape\<close>, but the standard term is passed to \<^verbatim>\<open>re.sub\<close> as it is, where it is
  read as a replacement template. For the text \<open>ab cd\<close> and a vector service that returns
  the dictionary term \<open>R\D\<close> (code points 82, 92, 68), the call ends with \<^verbatim>\<open>re.error\<close>:
  there is no processed text, no record and no total. With the dictionary term \<open>A\nB\<close>
  (65, 92, 110, 66) the call returns, and the processed text is \<open>A\<close>, a line feed, \<open>B\<close>
  (65, 10, 66), which is not the standard term that the record names.
\<close>

theorem replacement_template_escape:
  "identify_and_replace_terms ascii_rt (esc_service [82, 92, 68]) (cps ''ab cd'') (6 / 10) 2
     = Inl ReError
   \<and> identify_and_replace_terms ascii_rt (esc_service [65, 92, 110, 66]) (cps ''ab cd'')
       (6 / 10) 2
     = Inr \<lparr> tr_original_text = cps ''ab cd'', tr_processed_text = [65, 10, 66],
         tr_identified_terms =
           [\<lparr> it_original = cps ''ab'', it_standard = [65, 92, 110, 66],
              it_similarity = 9 / 10, it_match_type = Semantic \<rparr>,
            \<lparr> it_original = cps ''cd'', it_standard = [65, 92, 110, 66],
              it_similarity = 9 / 10, it_match_type = Semantic \<rparr>,
            \<lparr> it_original = cps ''ab cd'', it_standard = [65, 92, 110, 66],
              it_similarity = 9 / 10, it_match_type = Semantic \<rparr>],
         tr_replacements =
           [\<lparr> rr_original = cps ''ab cd'', rr_standard = [65, 92, 110, 66], rr_count = 1,
              rr_similarity = 9 / 10, rr_match_type = Semantic \<rparr>],
         tr_total_replacements = Some 1, tr_message = Msg_done 3 1 \<rparr>"
proof -
  have n: "cps ''ab cd'' \<noteq> []" by (simp add: cps_def)
  have u: "usable_service (esc_service standard) = Some (esc_vs standard)" for standard
    by (simp add: usable_service_def esc_service_def esc_vs_def)
  have d: "data_loader (esc_service standard)
      = [\<lparr> row_term = standard, row_label = cps ''FINANCE'' \<rparr>]" for standard
    by (simp add: esc_service_def)
  have i1: "fst (identification_pass ascii_rt
          [\<lparr> row_term = [82, 92, 68], row_label = cps ''FINANCE'' \<rparr>]
          (esc_vs [82, 92, 68]) (6 / 10) [cps ''ab'', cps ''cd'', cps ''ab cd''])
     = [\<lparr> it_original = cps ''ab'', it_standard = [82, 92, 68],
          it_similarity = 9 / 10, it_match_type = Semantic \<rparr>,
        \<lparr> it_original = cps ''cd'', it_standard = [82, 92, 68],
          it_similarity = 9 / 10, it_match_type = Semantic \<rparr>,
        \<lparr> it_original = cps ''ab cd'', it_standard = [82, 92, 68],
          it_similarity = 9 / 10, it_match_type = Semantic \<rparr>]"
    by (simp add: ev_pass search_exact_def py_lower_def cps_def esc_vs_def is_ascii_def
          ascii_tolower_def ascii_upper_def)
  have i2: "fst (identification_pass ascii_rt
          [\<lparr> row_term = [65, 92, 110, 66], row_label = cps ''FINANCE'' \<rparr>]
          (esc_vs [65, 92, 110, 66]) (6 / 10) [cps ''ab'', cps ''cd'', cps ''ab cd''])
     = [\<lparr> it_original = cps ''ab'', it_standard = [65, 92, 110, 66],
          it_similarity = 9 / 10, it_match_type = Semantic \<rparr>,
        \<lparr> it_original = cps ''cd'', it_standard = [65, 92, 110, 66],
          it_similarity = 9 / 10, it_match_type = Semantic \<rparr>,
        \<lparr> it_original = cps ''ab cd'', it_standard = [65, 92, 110, 66],
          it_similarity = 9 / 10, it_match_type = Semantic \<rparr>]"
    by (simp add: ev_pass search_exact_def py_lower_def cps_def esc_vs_def is_ascii_def
          ascii_tolower_def ascii_upper_def)
  have r1: "identify_and_replace_terms ascii_rt (esc_service [82, 92, 68]) (cps ''ab cd'')
       (6 / 10) 2 = Inl ReError"
    unfolding identify_and_replace_terms_def
    by (simp only: n u d if_False option.case Let_def esc_extract i1 esc_sorted esc_raises
          sum.case)
  have r2: "identify_and_replace_terms ascii_rt (esc_service [65, 92, 110, 66]) (cps ''ab cd'')
       (6 / 10) 2
     = Inr \<lparr> tr_original_text = cps ''ab cd'', tr_processed_text = [65, 10, 66],
         tr_identified_terms =
           [\<lparr> it_original = cps ''ab'', it_standard = [65, 92, 110, 66],
              it_similarity = 9 / 10, it_match_type = Semantic \<rparr>,
            \<lparr> it_original = cps ''cd'', it_standard = [65, 92, 110, 66],
              it_similarity = 9 / 10, it_match_type = Semantic \<rparr>,
            \<lparr> it_original = cps ''ab cd'', it_standard = [65, 92, 110, 66],
              it_similarity = 9 / 10, it_match_type = Semantic \<rparr>],
         tr_replacements =
           [\<lparr> rr_original = cps ''ab cd'', rr_standard = [65, 92, 110, 66], rr_count = 1,
              rr_similarity = 9 / 10, rr_match_type = Semantic \<rparr>],
         tr_total_replacements = Some 1, tr_message = Msg_done 3 1 \<rparr>"
    unfolding identify_and_replace_terms_def
    by (simp only: n u d if_False option.case Let_def esc_extract i2 esc_sorted esc_newline
          sum.case prod.case)
       simp
  from r1 r2 show ?thesis by (rule conjI)
qed

text \<open>
  The described pass substitutes the standard term itself: for the same text it gives
  \<open>A\nB\<close> as written, backslash and letter, where the code gives a line feed.
\<close>

lemma described_keeps_standard:
  "fst (replace_described ascii_rt
     [\<lparr> it_original = cps ''ab cd'', it_standard = [65, 92, 110, 66],
          it_similarity = 9 / 10, it_match_type = Semantic \<rparr>,
      \<lparr> it_original = cps ''ab'', it_standard = [65, 92, 110, 66],
          it_similarity = 9 / 10, it_match_type = Semantic \<rparr>,
      \<lparr> it_original = cps ''cd'', it_standard = [65, 92, 110, 66],
          it_similarity = 9 / 10, it_match_type = Semantic \<rparr>]
     (cps ''ab cd'')) = [65, 92, 110, 66]"
  by (simp add: ev_sub substitute_all_def)

section \<open>Replacement: a concrete run without a backslash\<close>

lemma credit_described:
  "(cps ''Credit Risk'',
    [\<lparr> rr_original = cps ''credit risk'', rr_standard = cps ''Credit Risk'', rr_count = 1,
        rr_similarity = 1, rr_match_type = Exact \<rparr>,
     \<lparr> rr_original = cps ''risk'', rr_standard = cps ''Risk'', rr_count = 1,
        rr_similarity = 1, rr_match_type = Exact \<rparr>])
   = replace_described ascii_rt
       [\<lparr> it_original = cps ''credit risk'', it_standard = cps ''Credit Risk'',
          it_similarity = 1, it_match_type = Exact \<rparr>,
        \<lparr> it_original = cps ''risk'', it_standard = cps ''Risk'',
          it_similarity = 1, it_match_type = Exact \<rparr>]
       (cps ''credit risk'')"
  by (simp add: ev_sub substitute_all_def)

text \<open>
  Three occurrences of \<open>API\<close> in different cases are counted and replaced.
\<close>

lemma api_count:
  "findall ascii_rt (whole_word_pattern ascii_rt (cps ''API'')) (cps ''API api API'')
     = [cps ''API'', cps ''api'', cps ''API'']
   \<and> substitute_all ascii_rt (cps ''API'') (cps ''Application Programming Interface'')
        (cps ''API api API'')
     = (cps ''Application Programming Interface Application Programming Interface Application Programming Interface'', 3)"
  by (simp add: ev_sub substitute_all_def)

end
